theory Spec2Isabelle
  imports Main "HOL-Library.Word"
begin

section \<open>JavaScript strings\<close>

text \<open>
  A JavaScript string is a sequence of 16-bit code units. The front end only compares,
  concatenates, trims and splits strings, so a string is a list of code units and a
  literal of the source is written through \<open>js\<close>.
\<close>

type_synonym code_unit = "16 word"
type_synonym jsstring = "code_unit list"

definition js :: "string \<Rightarrow> jsstring" where
  "js s = map (\<lambda>c. of_nat (of_char c)) s"

text \<open>
  \<^verbatim>\<open>String.prototype.trim\<close> removes WhiteSpace and LineTerminator code points from
  both ends: TAB, LF, VT, FF, CR, SP, NBSP, U+1680, U+2000..U+200A, U+2028, U+2029,
  U+202F, U+205F, U+3000 and U+FEFF.
\<close>

definition is_js_space :: "code_unit \<Rightarrow> bool" where
  "is_js_space c \<longleftrightarrow>
     c \<in> {0x09, 0x0A, 0x0B, 0x0C, 0x0D, 0x20, 0xA0, 0x1680,
          0x2000, 0x2001, 0x2002, 0x2003, 0x2004, 0x2005, 0x2006, 0x2007,
          0x2008, 0x2009, 0x200A, 0x2028, 0x2029, 0x202F, 0x205F, 0x3000, 0xFEFF}"

definition trim :: "jsstring \<Rightarrow> jsstring" where
  "trim s = rev (dropWhile is_js_space (rev (dropWhile is_js_space s)))"

text \<open>\<^verbatim>\<open>s.startsWith(p)\<close>.\<close>

definition startsWith :: "jsstring \<Rightarrow> jsstring \<Rightarrow> bool" where
  "startsWith s p \<longleftrightarrow> take (length p) s = p"

text \<open>
  \<^verbatim>\<open>s.replace(pat, rep)\<close> with a string pattern: the first occurrence of \<open>pat\<close> is
  replaced, and a string without one is returned as it is. (The replacement texts of the
  source hold no \<^verbatim>\<open>$\<close> pattern.)
\<close>

fun replace_first :: "jsstring \<Rightarrow> jsstring \<Rightarrow> jsstring \<Rightarrow> jsstring" where
  "replace_first pat rep [] = (if pat = [] then rep else [])"
| "replace_first pat rep (c # cs) =
     (if startsWith (c # cs) pat then rep @ drop (length pat) (c # cs)
      else c # replace_first pat rep cs)"

text \<open>
  \<^verbatim>\<open>s.split('\n\n')\<close>: the separator is searched from the left, occurrences do not
  overlap, and the result always has at least one element (the text after the last
  separator, the whole string when there is none).
\<close>

definition LF :: code_unit where
  "LF = 0x0A"

definition cons_first :: "code_unit \<Rightarrow> jsstring list \<Rightarrow> jsstring list" where
  "cons_first c ps = (case ps of [] \<Rightarrow> [[c]] | p # qs \<Rightarrow> (c # p) # qs)"

fun split_blank :: "jsstring \<Rightarrow> jsstring list" where
  "split_blank [] = [[]]"
| "split_blank [c] = [[c]]"
| "split_blank (c # d # cs) =
     (if c = LF \<and> d = LF then [] # split_blank cs
      else cons_first c (split_blank (d # cs)))"

section \<open>The wire types (lib/types.ts)\<close>

text \<open>
  A value of TypeScript's \<^verbatim>\<open>unknown\<close> reaches the client as parsed JSON. A number is
  kept as its literal text, where JavaScript holds the nearest double; the members of an
  object are kept in the order of the text, repeated names with them, where JavaScript
  keeps the last value of a name. The texts parsed below hold no number and no repeated
  name.
\<close>

datatype json =
    JNull
  | JBool bool
  | JNumber jsstring
  | JString jsstring
  | JArray "json list"
  | JObject "(jsstring \<times> json) list"

text \<open>\<^verbatim>\<open>interface DocumentRef { id: string; filename: string; url: string }\<close>\<close>

record DocumentRef =
  doc_id :: jsstring
  filename :: jsstring
  url :: jsstring

text \<open>\<^verbatim>\<open>interface ChunkRef { chunk_id: string; text: string; document_id?: string }\<close>\<close>

record ChunkRef =
  chunk_id :: jsstring
  chunk_text :: jsstring
  document_id :: "jsstring option"

text \<open>
  \<^verbatim>\<open>interface ToolLog { kind: 'call' | 'return'; tool: string; args?: unknown; content?: unknown }\<close>
  An optional field is an \<open>option\<close>: \<open>None\<close> is the absent field.
\<close>

datatype ToolKind = Call | Return

record ToolLog =
  kind :: ToolKind
  tool :: jsstring
  args :: "json option"
  log_content :: "json option"

text \<open>
  \<^verbatim>\<open>type ChatStreamEvent =
    | { type: 'delta'; token: string }
    | { type: 'final'; session_id: string; text: string; documents: DocumentRef[];
        support: boolean; tools: string[]; chunks: ChunkRef[]; tool_logs?: ToolLog[] }
    | { type: 'tool'; logs: ToolLog[]; doc_ids: string[]; chunks: ChunkRef[] }\<close>
  The tag \<^verbatim>\<open>type\<close> is the constructor.
\<close>

datatype ChatStreamEvent =
    Delta (token: jsstring)
  | Final (session_id: jsstring) (final_text: jsstring) (final_documents: "DocumentRef list")
      (final_support: bool) (final_tools: "jsstring list") (final_chunks: "ChunkRef list")
      (final_tool_logs: "ToolLog list option")
  | Tool (logs: "ToolLog list") (doc_ids: "jsstring list") (tool_chunks: "ChunkRef list")

text \<open>\<^verbatim>\<open>interface ChatMessage\<close>, every optional field an \<open>option\<close>.\<close>

datatype Role = User | Assistant

record ChatMessage =
  msg_id :: "jsstring option"
  role :: Role
  content :: jsstring
  created_at :: "jsstring option"
  documents :: "DocumentRef list option"
  support :: "bool option"
  tools :: "jsstring list option"
  chunks :: "ChunkRef list option"
  toolLogs :: "ToolLog list option"
  tool_logs :: "ToolLog list option"

section \<open>\<^verbatim>\<open>JSON.parse\<close>\<close>

text \<open>
  \<^verbatim>\<open>JSON.parse\<close> is the platform's. The client's functions take their parser as an
  argument; the parser below follows the JSON grammar (ECMA-404) and is the argument of
  the concrete runs: white space is SP, TAB, LF and CR, a string takes the escapes
  \<^verbatim>\<open>\" \\ \/ \b \f \n \r \t \uXXXX\<close> and no control character, a number is
  \<^verbatim>\<open>-? (0 | [1-9][0-9]*) (. [0-9]+)? ([eE] [+-]? [0-9]+)?\<close>. \<open>None\<close> is the thrown
  \<^verbatim>\<open>SyntaxError\<close>. The first argument of \<open>parse_value\<close> bounds the depth of the recursion;
  \<open>json_parse\<close> starts it at twice the length of the text and two (the recursion descends
  one level into a value and one into its elements or members, and at most that for every
  character consumed).
\<close>

definition is_json_ws :: "code_unit \<Rightarrow> bool" where
  "is_json_ws c \<longleftrightarrow> c = 0x20 \<or> c = 0x09 \<or> c = 0x0A \<or> c = 0x0D"

definition skip_ws :: "jsstring \<Rightarrow> jsstring" where
  "skip_ws s = dropWhile is_json_ws s"

definition is_digit :: "code_unit \<Rightarrow> bool" where
  "is_digit c \<longleftrightarrow> 0x30 \<le> c \<and> c \<le> 0x39"

definition hex_value :: "code_unit \<Rightarrow> code_unit option" where
  "hex_value c =
     (if 0x30 \<le> c \<and> c \<le> 0x39 then Some (c - 0x30)
      else if 0x41 \<le> c \<and> c \<le> 0x46 then Some (c - 0x41 + 10)
      else if 0x61 \<le> c \<and> c \<le> 0x66 then Some (c - 0x61 + 10)
      else None)"

definition unescape :: "code_unit \<Rightarrow> code_unit option" where
  "unescape c =
     (if c = 0x22 \<or> c = 0x5C \<or> c = 0x2F then Some c
      else if c = 0x62 then Some 0x08
      else if c = 0x66 then Some 0x0C
      else if c = 0x6E then Some 0x0A
      else if c = 0x72 then Some 0x0D
      else if c = 0x74 then Some 0x09
      else None)"

fun parse_chars :: "jsstring \<Rightarrow> jsstring \<Rightarrow> (jsstring \<times> jsstring) option" where
  "parse_chars acc [] = None"
| "parse_chars acc (c # cs) =
     (if c = 0x22 then Some (rev acc, cs)
      else if c = 0x5C then
        (case cs of
           [] \<Rightarrow> None
         | e # es \<Rightarrow>
             if e = 0x75 then
               (case es of
                  h1 # h2 # h3 # h4 # rest \<Rightarrow>
                    (case (hex_value h1, hex_value h2, hex_value h3, hex_value h4) of
                       (Some v1, Some v2, Some v3, Some v4) \<Rightarrow>
                         parse_chars ((v1 * 0x1000 + v2 * 0x100 + v3 * 0x10 + v4) # acc) rest
                     | _ \<Rightarrow> None)
                | _ \<Rightarrow> None)
             else
               (case unescape e of
                  None \<Rightarrow> None
                | Some u \<Rightarrow> parse_chars (u # acc) es))
      else if c < 0x20 then None
      else parse_chars (c # acc) cs)"

definition parse_digits :: "jsstring \<Rightarrow> (jsstring \<times> jsstring) option" where
  "parse_digits s =
     (if takeWhile is_digit s = [] then None
      else Some (takeWhile is_digit s, dropWhile is_digit s))"

definition parse_int :: "jsstring \<Rightarrow> (jsstring \<times> jsstring) option" where
  "parse_int s =
     (case s of
        [] \<Rightarrow> None
      | c # cs \<Rightarrow> if c = 0x30 then Some ([c], cs) else parse_digits s)"

definition parse_frac :: "jsstring \<Rightarrow> (jsstring \<times> jsstring) option" where
  "parse_frac s =
     (case s of
        [] \<Rightarrow> Some ([], s)
      | c # cs \<Rightarrow>
          if c = 0x2E then
            (case parse_digits cs of None \<Rightarrow> None | Some (ds, r) \<Rightarrow> Some (c # ds, r))
          else Some ([], s))"

definition parse_exp :: "jsstring \<Rightarrow> (jsstring \<times> jsstring) option" where
  "parse_exp s =
     (case s of
        [] \<Rightarrow> Some ([], s)
      | c # cs \<Rightarrow>
          if c = 0x65 \<or> c = 0x45 then
            (case cs of
               [] \<Rightarrow> None
             | d # ds \<Rightarrow>
                 if d = 0x2B \<or> d = 0x2D then
                   (case parse_digits ds of None \<Rightarrow> None | Some (xs, r) \<Rightarrow> Some (c # d # xs, r))
                 else
                   (case parse_digits cs of None \<Rightarrow> None | Some (xs, r) \<Rightarrow> Some (c # xs, r)))
          else Some ([], s))"

definition parse_number :: "jsstring \<Rightarrow> (jsstring \<times> jsstring) option" where
  "parse_number s =
     (let (sign, s1) = (case s of [] \<Rightarrow> ([], s) | c # cs \<Rightarrow> if c = 0x2D then ([c], cs) else ([], s))
      in case parse_int s1 of
           None \<Rightarrow> None
         | Some (i, s2) \<Rightarrow>
             (case parse_frac s2 of
                None \<Rightarrow> None
              | Some (f, s3) \<Rightarrow>
                  (case parse_exp s3 of
                     None \<Rightarrow> None
                   | Some (e, s4) \<Rightarrow> Some (sign @ i @ f @ e, s4))))"

fun parse_value :: "nat \<Rightarrow> jsstring \<Rightarrow> (json \<times> jsstring) option"
and parse_elements :: "nat \<Rightarrow> json list \<Rightarrow> jsstring \<Rightarrow> (json list \<times> jsstring) option"
and parse_members :: "nat \<Rightarrow> (jsstring \<times> json) list \<Rightarrow> jsstring \<Rightarrow> ((jsstring \<times> json) list \<times> jsstring) option"
where
  "parse_value 0 s = None"
| "parse_value (Suc n) s =
     (case s of
        [] \<Rightarrow> None
      | c # cs \<Rightarrow>
          if c = 0x7B then
            (case skip_ws cs of
               [] \<Rightarrow> None
             | d # ds \<Rightarrow>
                 if d = 0x7D then Some (JObject [], ds)
                 else (case parse_members n [] (d # ds) of
                         None \<Rightarrow> None
                       | Some (ms, r) \<Rightarrow> Some (JObject ms, r)))
          else if c = 0x5B then
            (case skip_ws cs of
               [] \<Rightarrow> None
             | d # ds \<Rightarrow>
                 if d = 0x5D then Some (JArray [], ds)
                 else (case parse_elements n [] (d # ds) of
                         None \<Rightarrow> None
                       | Some (vs, r) \<Rightarrow> Some (JArray vs, r)))
          else if c = 0x22 then
            (case parse_chars [] cs of None \<Rightarrow> None | Some (str, r) \<Rightarrow> Some (JString str, r))
          else if startsWith s (js ''true'') then Some (JBool True, drop 4 s)
          else if startsWith s (js ''false'') then Some (JBool False, drop 5 s)
          else if startsWith s (js ''null'') then Some (JNull, drop 4 s)
          else (case parse_number s of None \<Rightarrow> None | Some (num, r) \<Rightarrow> Some (JNumber num, r)))"
| "parse_elements 0 acc s = None"
| "parse_elements (Suc n) acc s =
     (case parse_value n s of
        None \<Rightarrow> None
      | Some (v, r) \<Rightarrow>
          (case skip_ws r of
             [] \<Rightarrow> None
           | c # cs \<Rightarrow>
               if c = 0x2C then parse_elements n (v # acc) (skip_ws cs)
               else if c = 0x5D then Some (rev (v # acc), cs)
               else None))"
| "parse_members 0 acc s = None"
| "parse_members (Suc n) acc s =
     (case s of
        [] \<Rightarrow> None
      | q # qs \<Rightarrow>
          if q \<noteq> 0x22 then None
          else
            (case parse_chars [] qs of
               None \<Rightarrow> None
             | Some (key, r) \<Rightarrow>
                 (case skip_ws r of
                    [] \<Rightarrow> None
                  | c # cs \<Rightarrow>
                      if c \<noteq> 0x3A then None
                      else
                        (case parse_value n (skip_ws cs) of
                           None \<Rightarrow> None
                         | Some (v, r') \<Rightarrow>
                             (case skip_ws r' of
                                [] \<Rightarrow> None
                              | d # ds \<Rightarrow>
                                  if d = 0x2C then parse_members n ((key, v) # acc) (skip_ws ds)
                                  else if d = 0x7D then Some (rev ((key, v) # acc), ds)
                                  else None)))))"

definition json_parse :: "jsstring \<Rightarrow> json option" where
  "json_parse s =
     (case parse_value (2 * length s + 2) (skip_ws s) of
        None \<Rightarrow> None
      | Some (v, r) \<Rightarrow> if skip_ws r = [] then Some v else None)"

section \<open>The API client (lib/api.ts)\<close>

text \<open>
  What a client function throws: \<^verbatim>\<open>new Error(message)\<close>, or the \<^verbatim>\<open>SyntaxError\<close> of
  \<^verbatim>\<open>JSON.parse\<close> and \<^verbatim>\<open>res.json()\<close>.
\<close>

datatype js_error = Error jsstring | SyntaxError

text \<open>
  A request as \<^verbatim>\<open>fetch(url, init)\<close> receives it. \<^verbatim>\<open>JSON.stringify(v)\<close> is kept as the
  value \<open>v\<close> it is given, a \<^verbatim>\<open>FormData\<close> with one file as that file.
\<close>

record File =
  file_name :: jsstring
  file_data :: "8 word list"

datatype request_body = NoBody | JsonBody json | FormBody File

record request =
  req_method :: jsstring
  req_url :: jsstring
  headers :: "(jsstring \<times> jsstring) list"
  req_body :: request_body

definition json_headers :: "(jsstring \<times> jsstring) list" where
  "json_headers = [(js ''Content-Type'', js ''application/json'')]"

text \<open>
  The part of a \<^verbatim>\<open>Response\<close> the client reads: \<^verbatim>\<open>ok\<close>, \<^verbatim>\<open>statusText\<close> and the body.
  The body is \<open>None\<close> for \<^verbatim>\<open>res.body === null\<close>; otherwise it is the sequence of
  pieces its reader hands out, each piece already decoded (a \<^verbatim>\<open>TextDecoder\<close> in stream
  mode emits the text of the bytes read so far, so the pieces of text concatenate to the
  text of the whole body however the bytes were cut). \<^verbatim>\<open>res.text()\<close> is the whole text.
\<close>

record response =
  ok :: bool
  statusText :: jsstring
  body :: "jsstring list option"

definition res_text :: "response \<Rightarrow> jsstring" where
  "res_text res = (case body res of None \<Rightarrow> [] | Some pieces \<Rightarrow> concat pieces)"

text \<open>
  \<^verbatim>\<open>async function handleResponse(res) {
    if (!res.ok) { const text = await res.text(); throw new Error(text || res.statusText) }
    return res }\<close>
  A thrown error is \<open>Inl\<close>. The empty string is the only falsy string.
\<close>

definition handleResponse :: "response \<Rightarrow> js_error + response" where
  "handleResponse res =
     (if \<not> ok res then
        (let text = res_text res in Inl (Error (if text \<noteq> [] then text else statusText res)))
      else Inr res)"










text \<open>
  The body of the \<^verbatim>\<open>for (const chunk of parts)\<close> loop of \<^verbatim>\<open>streamChat\<close>. The callback
  \<open>onEvent\<close> acts on a state \<open>'st\<close> of the caller. \<open>parse\<close> is \<^verbatim>\<open>JSON.parse\<close> followed by
  the cast to \<^verbatim>\<open>ChatStreamEvent\<close>: \<open>None\<close> where \<^verbatim>\<open>JSON.parse\<close> throws, which ends
  \<^verbatim>\<open>streamChat\<close> with the state the callbacks have built so far.
\<close>

fun for_parts ::
  "(jsstring \<Rightarrow> 'e option) \<Rightarrow> ('st \<Rightarrow> 'e \<Rightarrow> 'st) \<Rightarrow> 'st \<Rightarrow> jsstring list \<Rightarrow> 'st \<times> js_error option"
where
  "for_parts parse onEvent st [] = (st, None)"
| "for_parts parse onEvent st (chunk # parts) =
     (let line = trim chunk in
      if \<not> startsWith line (js ''data:'') then for_parts parse onEvent st parts
      else
        (case parse (trim (replace_first (js ''data:'') [] line)) of
           None \<Rightarrow> (st, Some SyntaxError)
         | Some payload \<Rightarrow> for_parts parse onEvent (onEvent st payload) parts))"

text \<open>
  The \<^verbatim>\<open>while (true)\<close> loop of \<^verbatim>\<open>streamChat\<close> over the pieces the reader still has to
  hand out; the empty list is \<^verbatim>\<open>done\<close>. \<^verbatim>\<open>parts.pop() ?? ''\<close> is the last part.
\<close>

fun read_loop ::
  "(jsstring \<Rightarrow> 'e option) \<Rightarrow> ('st \<Rightarrow> 'e \<Rightarrow> 'st) \<Rightarrow> jsstring \<Rightarrow> 'st \<Rightarrow> jsstring list \<Rightarrow> 'st \<times> js_error option"
where
  "read_loop parse onEvent buffer st [] = (st, None)"
| "read_loop parse onEvent buffer st (piece # pieces) =
     (let parts = split_blank (buffer @ piece);
          buffer' = (if parts = [] then [] else last parts)
      in case for_parts parse onEvent st (butlast parts) of
           (st', Some e) \<Rightarrow> (st', Some e)
         | (st', None) \<Rightarrow> read_loop parse onEvent buffer' st' pieces)"

text \<open>
  \<^verbatim>\<open>streamChat(payload, onEvent)\<close>. The payload is
  \<^verbatim>\<open>{ session_id?: string | null; message: string }\<close>; \<open>sid\<close> is its \<^verbatim>\<open>session_id\<close> when
  the member is there, a string or \<^verbatim>\<open>null\<close>, as it is in the one call of the client (a
  payload without the member, which \<^verbatim>\<open>JSON.stringify\<close> would send without it, is not
  modelled). The result is the caller's state after the callbacks that ran, and what was
  thrown, if anything.
\<close>

definition chat_request :: "jsstring \<Rightarrow> jsstring option \<Rightarrow> jsstring \<Rightarrow> request" where
  "chat_request api_base sid message =
     \<lparr>req_method = js ''POST'', req_url = api_base @ js ''/api/chat/stream'', headers = json_headers,
      req_body = JsonBody (JObject [(js ''session_id'', (case sid of None \<Rightarrow> JNull | Some i \<Rightarrow> JString i)),
                                    (js ''message'', JString message)])\<rparr>"

definition streamChat ::
  "jsstring \<Rightarrow> (request \<Rightarrow> response) \<Rightarrow> (jsstring \<Rightarrow> 'e option) \<Rightarrow>
   jsstring option \<Rightarrow> jsstring \<Rightarrow> ('st \<Rightarrow> 'e \<Rightarrow> 'st) \<Rightarrow> 'st \<Rightarrow> 'st \<times> js_error option"
where
  "streamChat api_base fetch parse sid message onEvent st =
     (case handleResponse (fetch (chat_request api_base sid message)) of
        Inl e \<Rightarrow> (st, Some e)
      | Inr res \<Rightarrow>
          (case body res of
             None \<Rightarrow> (st, Some (Error (js ''No stream body'')))
           | Some pieces \<Rightarrow> read_loop parse onEvent [] st pieces))"

text \<open>
  One call of \<^verbatim>\<open>fetch\<close> as the network sees it: the request joins those sent so far, and
  the server's response comes back.
\<close>

definition send :: "(request \<Rightarrow> response) \<Rightarrow> request \<Rightarrow> request list \<Rightarrow> response \<times> request list" where
  "send fetch req sent = (fetch req, sent @ [req])"

text \<open>
  \<^verbatim>\<open>streamChat(payload, onEvent)\<close> with the requests sent kept beside its result: the
  statements are those of \<open>streamChat\<close>, and the call of \<^verbatim>\<open>fetch\<close> is a \<open>send\<close>.
\<close>

definition streamChat_traced ::
  "jsstring \<Rightarrow> (request \<Rightarrow> response) \<Rightarrow> (jsstring \<Rightarrow> 'e option) \<Rightarrow>
   jsstring option \<Rightarrow> jsstring \<Rightarrow> ('st \<Rightarrow> 'e \<Rightarrow> 'st) \<Rightarrow> 'st \<Rightarrow> request list \<Rightarrow>
   ('st \<times> js_error option) \<times> request list"
where
  "streamChat_traced api_base fetch parse sid message onEvent st sent =
     (case send fetch (chat_request api_base sid message) sent of
        (res0, sent') \<Rightarrow>
          (case handleResponse res0 of
             Inl e \<Rightarrow> ((st, Some e), sent')
           | Inr res \<Rightarrow>
               (case body res of
                  None \<Rightarrow> ((st, Some (Error (js ''No stream body''))), sent')
                | Some pieces \<Rightarrow> (read_loop parse onEvent [] st pieces, sent'))))"

text \<open>
  The callback that only records the events it is given, oldest first.
\<close>

definition collect :: "'e list \<Rightarrow> 'e \<Rightarrow> 'e list" where
  "collect acc e = acc @ [e]"

text \<open>
  The event sequence as the claim about \<^verbatim>\<open>streamChat\<close> words it, read off the text of the
  whole stream: the blocks terminated by a blank line are the parts of the whole text
  but the last; a data block is one whose trimmed text starts with \<^verbatim>\<open>data:\<close>; its payload
  is the trimmed text after that prefix. \<open>parsed_prefix\<close> parses payloads in order up to the
  first one the parser rejects.
\<close>

definition terminated_blocks :: "jsstring \<Rightarrow> jsstring list" where
  "terminated_blocks whole = butlast (split_blank whole)"

definition is_data_block :: "jsstring \<Rightarrow> bool" where
  "is_data_block b \<longleftrightarrow> startsWith (trim b) (js ''data:'')"

definition block_payload :: "jsstring \<Rightarrow> jsstring" where
  "block_payload b = trim (drop (length (js ''data:'')) (trim b))"

definition data_payloads :: "jsstring \<Rightarrow> jsstring list" where
  "data_payloads whole = map block_payload (filter is_data_block (terminated_blocks whole))"

fun parsed_prefix :: "(jsstring \<Rightarrow> 'e option) \<Rightarrow> jsstring list \<Rightarrow> 'e list" where
  "parsed_prefix parse [] = []"
| "parsed_prefix parse (p # ps) =
     (case parse p of None \<Rightarrow> [] | Some e \<Rightarrow> e # parsed_prefix parse ps)"

section \<open>The chat view (components/ChatView)\<close>

text \<open>
  The React state of \<^verbatim>\<open>ChatView\<close>: \<^verbatim>\<open>sessionId\<close>, \<^verbatim>\<open>messages\<close>, \<^verbatim>\<open>input\<close> and
  \<^verbatim>\<open>streaming\<close>, with the two things the handlers do besides setting state: the targets
  of \<^verbatim>\<open>router.replace\<close> and the arguments of \<^verbatim>\<open>console.error\<close>, oldest first. The state
  setters take effect in the order they are called.
\<close>

record ChatView =
  sessionId :: "jsstring option"
  messages :: "ChatMessage list"
  input :: jsstring
  streaming :: bool
  replaced :: "jsstring list"
  console_errors :: "js_error list"

text \<open>\<^verbatim>\<open>appendMessage(msg)\<close>: \<^verbatim>\<open>setMessages(prev => [...prev, msg])\<close>.\<close>

definition appendMessage :: "ChatMessage \<Rightarrow> ChatView \<Rightarrow> ChatView" where
  "appendMessage msg st = st\<lparr>messages := messages st @ [msg]\<rparr>"

text \<open>\<^verbatim>\<open>a ?? b\<close> on an optional value.\<close>

definition nullish :: "'a option \<Rightarrow> 'a option \<Rightarrow> 'a option" where
  "nullish a b = (case a of None \<Rightarrow> b | Some x \<Rightarrow> Some x)"

text \<open>
  \<^verbatim>\<open>updateAssistant(updater, docs?, tools?, chunks?, toolLogs?)\<close>: the last message is
  rewritten when it is the assistant's, and a new assistant message is pushed otherwise.
\<close>

definition updateAssistant ::
  "(jsstring \<Rightarrow> jsstring) \<Rightarrow> DocumentRef list option \<Rightarrow> jsstring list option \<Rightarrow>
   ChunkRef list option \<Rightarrow> ToolLog list option \<Rightarrow> ChatView \<Rightarrow> ChatView"
where
  "updateAssistant updater docs tls chs tlogs st =
     (let next = messages st;
          lastIndex = int (length next) - 1
      in if lastIndex \<ge> 0 \<and> role (next ! nat lastIndex) = Assistant then
           (let current = next ! nat lastIndex
            in st\<lparr>messages := next[nat lastIndex := current\<lparr>
                    content := updater (content current),
                    documents := nullish docs (documents current),
                    tools := nullish tls (tools current),
                    chunks := nullish chs (chunks current),
                    toolLogs := nullish tlogs (toolLogs current)\<rparr>]\<rparr>)
         else
           st\<lparr>messages := next @ [\<lparr>msg_id = None, role = Assistant, content = updater [],
                    created_at = None, documents = docs, support = None, tools = tls,
                    chunks = chs, toolLogs = tlogs, tool_logs = None\<rparr>]\<rparr>)"

text \<open>
  The callback \<^verbatim>\<open>handleSend\<close> hands to \<^verbatim>\<open>streamChat\<close>. \<open>sid\<close> is the \<^verbatim>\<open>sessionId\<close> the
  callback closes over, the one of the render in which \<^verbatim>\<open>handleSend\<close> was called.
  \<^verbatim>\<open>!sessionId\<close> holds for \<^verbatim>\<open>null\<close> and for the empty string.
\<close>

fun onChatEvent :: "jsstring option \<Rightarrow> ChatView \<Rightarrow> ChatStreamEvent \<Rightarrow> ChatView" where
  "onChatEvent sid st (Delta tok) =
     updateAssistant (\<lambda>prev. prev @ tok) None None None None st"
| "onChatEvent sid st (Final new_sid txt docs spt tls chs tlogs) =
     (let st1 = st\<lparr>sessionId := Some new_sid\<rparr>;
          st2 = updateAssistant (\<lambda>_. txt) (Some docs) (Some tls) (Some chs) tlogs st1
      in if sid = None \<or> sid = Some [] \<or> sid \<noteq> Some new_sid
         then st2\<lparr>replaced := replaced st2 @ [js ''/chat/'' @ new_sid]\<rparr>
         else st2)"
| "onChatEvent sid st (Tool lgs dids chs) =
     updateAssistant (\<lambda>prev. prev) None None (Some chs) (Some lgs) st"

text \<open>
  \<^verbatim>\<open>handleSend\<close>. \<open>sent\<close> holds the requests the network has seen when \<^verbatim>\<open>handleSend\<close> is
  called. The first component of the result is the state \<^verbatim>\<open>handleSend\<close> leaves, the second
  the requests the network has seen when it is done. \<open>syntax_text\<close> is the message text the
  engine gives the \<^verbatim>\<open>SyntaxError\<close> of \<^verbatim>\<open>JSON.parse\<close>. The message of the user is
  \<^verbatim>\<open>{ role: 'user', content: text }\<close>, the other members of \<^verbatim>\<open>ChatMessage\<close> absent.
\<close>

definition user_message :: "jsstring \<Rightarrow> ChatMessage" where
  "user_message txt =
     \<lparr>msg_id = None, role = User, content = txt, created_at = None, documents = None,
      support = None, tools = None, chunks = None, toolLogs = None, tool_logs = None\<rparr>"

definition error_message :: "jsstring \<Rightarrow> js_error \<Rightarrow> ChatMessage" where
  "error_message syntax_text err =
     \<lparr>msg_id = None, role = Assistant,
      content = js ''Error: '' @ (case err of Error m \<Rightarrow> m | SyntaxError \<Rightarrow> syntax_text),
      created_at = None, documents = None, support = None, tools = None, chunks = None,
      toolLogs = None, tool_logs = None\<rparr>"

text \<open>
  The statements of \<^verbatim>\<open>handleSend\<close> before the \<^verbatim>\<open>try\<close>: \<open>None\<close> is the early
  \<^verbatim>\<open>return\<close>; otherwise the state in which \<^verbatim>\<open>streamChat\<close> is called, and the trimmed text.
\<close>

definition handleSend_begin :: "ChatView \<Rightarrow> (ChatView \<times> jsstring) option" where
  "handleSend_begin st =
     (let txt = trim (input st)
      in if txt = [] \<or> streaming st then None
         else Some (appendMessage (user_message txt) (st\<lparr>streaming := True, input := []\<rparr>), txt))"

definition handleSend ::
  "jsstring \<Rightarrow> (request \<Rightarrow> response) \<Rightarrow> (jsstring \<Rightarrow> ChatStreamEvent option) \<Rightarrow> jsstring \<Rightarrow>
   ChatView \<Rightarrow> request list \<Rightarrow> ChatView \<times> request list"
where
  "handleSend api_base fetch parse syntax_text st sent =
     (case handleSend_begin st of
        None \<Rightarrow> (st, sent)
      | Some (st1, txt) \<Rightarrow>
          (case streamChat_traced api_base fetch parse (sessionId st) txt
                  (onChatEvent (sessionId st)) st1 sent of
             ((st2, thrown), sent') \<Rightarrow>
               (let st3 = (case thrown of
                             None \<Rightarrow> st2
                           | Some err \<Rightarrow>
                               appendMessage (error_message syntax_text err)
                                 (st2\<lparr>console_errors := console_errors st2 @ [err]\<rparr>))
                in (st3\<lparr>streaming := False\<rparr>, sent'))))"

text \<open>
  The ordering of the events of one turn that the client is written for: zero or more
  deltas and tool notices, then exactly one terminal event. The producer of the stream is
  not among the source files, and the client does not check the ordering: it is a
  condition of the lemmas on the text of the assistant's message, not a fact proved here.
\<close>

definition is_final :: "ChatStreamEvent \<Rightarrow> bool" where
  "is_final e = (case e of Final _ _ _ _ _ _ _ \<Rightarrow> True | _ \<Rightarrow> False)"

definition turn_stream :: "ChatStreamEvent list \<Rightarrow> bool" where
  "turn_stream evs \<longleftrightarrow> evs \<noteq> [] \<and> is_final (last evs) \<and> list_all (\<lambda>e. \<not> is_final e) (butlast evs)"

text \<open>The text the deltas of a sequence of events spell, in arrival order.\<close>

fun delta_text :: "ChatStreamEvent list \<Rightarrow> jsstring" where
  "delta_text [] = []"
| "delta_text (Delta tok # es) = tok @ delta_text es"
| "delta_text (e # es) = delta_text es"

subsection \<open>A concrete turn\<close>

text \<open>
  A view with \<^verbatim>\<open>" hi  "\<close> typed in and no session yet, and a server that answers with a
  stream of four events cut into three pieces. \<open>demo_parse\<close> is \<^verbatim>\<open>JSON.parse\<close> with the cast
  on the four payloads of that stream.
\<close>

definition demo_view :: ChatView where
  "demo_view = \<lparr>sessionId = None, messages = [], input = js '' hi  '', streaming = False,
                 replaced = [], console_errors = []\<rparr>"

definition demo_call :: ToolLog where
  "demo_call = \<lparr>kind = Call, tool = js ''retrieveDocument'',
                 args = Some (JObject [(js ''query'', JString (js ''hi''))]), log_content = None\<rparr>"

definition demo_events :: "ChatStreamEvent list" where
  "demo_events =
     [Delta (js ''Hel''),
      Tool [demo_call] [] [],
      Delta (js ''lo''),
      Final (js ''s1'') (js ''Hello!'') [] False [js ''retrieveDocument''] [] None]"

definition demo_payloads :: "jsstring list" where
  "demo_payloads =
     [js ''{\"type\":\"delta\",\"token\":\"Hel\"}'',
      js ''{\"type\":\"tool\",\"logs\":[{\"kind\":\"call\",\"tool\":\"retrieveDocument\",\"args\":{\"query\":\"hi\"}}],\"doc_ids\":[],\"chunks\":[]}'',
      js ''{\"type\":\"delta\",\"token\":\"lo\"}'',
      js ''{\"type\":\"final\",\"session_id\":\"s1\",\"text\":\"Hello!\",\"documents\":[],\"support\":false,\"tools\":[\"retrieveDocument\"],\"chunks\":[]}'']"

definition demo_parse :: "jsstring \<Rightarrow> ChatStreamEvent option" where
  "demo_parse = map_of (zip demo_payloads demo_events)"

definition demo_fetch :: "request \<Rightarrow> response" where
  "demo_fetch req =
     \<lparr>ok = True, statusText = js ''OK'',
      body = Some [js ''data: '' @ demo_payloads ! 0 @ js ''\<newline>'',
                   js ''\<newline>data: '' @ demo_payloads ! 1 @ js ''\<newline>\<newline>data: '' @ demo_payloads ! 2,
                   js ''\<newline>\<newline>data: '' @ demo_payloads ! 3 @ js ''\<newline>\<newline>'']\<rparr>"

section \<open>The retrieval cache\<close>

text \<open>
  Modelled from the spec: the Retrieval Cache (section 4.3 and the CacheEntry of section 3)
  is not among the source files. A ResultSet is the ordered list of
  \<open>{document_id, chunk_id, score}\<close>; an entry holds the stored ResultSet and its
  \<open>expires_at\<close>; the store maps the normalized query to its entry. Times and TTLs are
  counted in whole units of the clock. Scores are only ever compared, with each other and
  with the floor, and are taken on an integer scale.
\<close>

record ScoredRef =
  ref_document_id :: string
  ref_chunk_id :: string
  score :: int

type_synonym ResultSet = "ScoredRef list"

record CacheEntry =
  entry_value :: ResultSet
  expires_at :: nat

type_synonym cache = "string \<rightharpoonup> CacheEntry"

text \<open>
  Modelled from the spec: \<open>get(normalized_query) -> Option<ResultSet>\<close> of the Retrieval
  Cache, which is not among the source files. Expiry is passive: it is checked on read and
  the stale entry stays in the store, logically absent. A hit is a read before
  \<open>expires_at\<close>.
\<close>

definition cache_get :: "cache \<Rightarrow> nat \<Rightarrow> string \<Rightarrow> ResultSet option" where
  "cache_get c now k =
     (case c k of
        None \<Rightarrow> None
      | Some e \<Rightarrow> if now < expires_at e then Some (entry_value e) else None)"

text \<open>
  Modelled from the spec: \<open>put(normalized_query, ResultSet, ttl)\<close> of the Retrieval Cache,
  which is not among the source files: an upsert that sets \<open>expires_at\<close> to the time of the
  write plus the TTL.
\<close>

definition cache_put :: "cache \<Rightarrow> nat \<Rightarrow> string \<Rightarrow> ResultSet \<Rightarrow> nat \<Rightarrow> cache" where
  "cache_put c now k v ttl = c(k \<mapsto> \<lparr>entry_value = v, expires_at = now + ttl\<rparr>)"

section \<open>The agent orchestrator\<close>

text \<open>
  Modelled from the spec: the Agent Orchestrator (section 4.5) and the Retrieval Engine's
  result (section 4.4) are not among the source files. The states are those of the spec's
  state machine, \<open>START \<rightarrow> (DIRECT_ANSWER | RETRIEVING) \<rightarrow> (ANSWERING | ESCALATED) \<rightarrow> DONE\<close>;
  the tools are the closed set \<open>{retrieveDocument, transferToSupport}\<close>; a ToolCallRecord
  is \<open>{kind: call|return, tool_name, arguments, result}\<close>; the faults are the two of
  section 7 that end a turn. An LLM call answers with plain text or one tool invocation,
  or fails; the LLM is any function of the number of the call within the turn and the
  conversation context. The configuration holds the tool-call budget, the minimum-score
  floor, \<open>top_k\<close> and the two fixed texts of an escalation. \<open>progress\<close> is what a turn
  has gathered while it runs; the ConversationTurn adds the decision and the final
  message (the \<open>rewritten_query\<close> of section 3 belongs to the Retrieval Engine and is left
  out).
\<close>

datatype agent_state = START | DIRECT_ANSWER | RETRIEVING | ANSWERING | ESCALATED | DONE

datatype decision = Answered | Escalated

datatype fault = LLMCallError | ToolBudgetExceeded

datatype tool = RetrieveDocumentTool | TransferToSupportTool

datatype record_kind = CallRecord | ReturnRecord

record ToolCallRecord =
  rec_kind :: record_kind
  tool_name :: tool
  arguments :: string
  result :: ResultSet

datatype tool_invocation = RetrieveDocument string | TransferToSupport string

datatype llm_reply = PlainText string | Invoke tool_invocation | CallFailed

datatype context_item = UserMessage string | AssistantMessage string | ToolResult ResultSet

type_synonym conversation = "context_item list"

type_synonym llm = "nat \<Rightarrow> conversation \<Rightarrow> llm_reply"

record config =
  max_iterations :: nat
  min_score :: int
  top_k :: nat
  handoff_notice :: string
  apology :: string

record progress =
  visited :: "agent_state list"
  retrieved :: ResultSet
  tool_log :: "ToolCallRecord list"
  iterations :: nat

record ConversationTurn = progress +
  turn_message :: string
  decision :: decision
  assistant_message :: string
  fault :: "fault option"

text \<open>
  Modelled from the spec: the last steps of the Retrieval Engine, which is not among the
  source files. \<open>search\<close> gives the merged candidates of a query in insertion order. The
  engine ranks them by score, highest first, ties in insertion order (the sort is stable),
  and returns an empty ResultSet when no chunk clears the minimum-score floor and the
  first \<open>top_k\<close> of the ranking otherwise.
\<close>

definition retrieve :: "config \<Rightarrow> (string \<Rightarrow> ResultSet) \<Rightarrow> string \<Rightarrow> ResultSet" where
  "retrieve cfg search q =
     (let ranked = sort_key (\<lambda>r. - score r) (search q)
      in if list_all (\<lambda>r. score r < min_score cfg) ranked then []
         else take (top_k cfg) ranked)"

text \<open>
  Modelled from the spec: one consultation of the LLM by the orchestrator, which is not
  among the source files. A failed call is retried once with the same context; the second
  component is the number of the next call.
\<close>

definition ask :: "llm \<Rightarrow> nat \<Rightarrow> conversation \<Rightarrow> llm_reply \<times> nat" where
  "ask model n ctx =
     (case model n ctx of
        CallFailed \<Rightarrow> (model (Suc n) ctx, Suc (Suc n))
      | reply \<Rightarrow> (reply, Suc n))"

text \<open>
  Modelled from the spec: how the orchestrator, which is not among the source files, ends a
  turn: it enters the given state, then \<open>DONE\<close>.
\<close>

definition finish ::
  "string \<Rightarrow> progress \<Rightarrow> agent_state \<Rightarrow> decision \<Rightarrow> string \<Rightarrow> fault option \<Rightarrow> ConversationTurn"
where
  "finish msg p final_state d reply f =
     \<lparr>visited = visited p @ [final_state, DONE], retrieved = retrieved p, tool_log = tool_log p,
      iterations = iterations p, turn_message = msg, decision = d, assistant_message = reply,
      fault = f\<rparr>"

text \<open>
  Modelled from the spec: the orchestrator, which is not among the source files, appends
  every tool invocation and its result to the ToolCallRecord sequence.
\<close>

definition log_tool :: "tool \<Rightarrow> string \<Rightarrow> ResultSet \<Rightarrow> progress \<Rightarrow> progress" where
  "log_tool which arg res p =
     p\<lparr>tool_log := tool_log p @
          [\<lparr>rec_kind = CallRecord, tool_name = which, arguments = arg, result = []\<rparr>,
           \<lparr>rec_kind = ReturnRecord, tool_name = which, arguments = arg, result = res\<rparr>]\<rparr>"

text \<open>
  Modelled from the spec: the tool-calling loop of the orchestrator, which is not among the
  source files. \<open>budget\<close> is what is left of the per-turn tool-call budget. Plain text
  with no tool call made is a direct answer; plain text after retrieval is an answer when
  retrieved content grounds it and an escalation otherwise; \<open>transferToSupport\<close> escalates
  at any point; a second failure of the LLM call escalates with the apology; a retrieval
  requested with the budget used up escalates; a retrieval within the budget is run, logged
  and appended to the context, and control returns to the LLM.
\<close>

fun agent_loop ::
  "config \<Rightarrow> llm \<Rightarrow> (string \<Rightarrow> ResultSet) \<Rightarrow> string \<Rightarrow> nat \<Rightarrow> nat \<Rightarrow> conversation \<Rightarrow> progress \<Rightarrow>
   ConversationTurn"
where
  "agent_loop cfg model search msg budget n ctx p =
     (case ask model n ctx of
        (PlainText answer, n') \<Rightarrow>
          if iterations p = 0 then finish msg p DIRECT_ANSWER Answered answer None
          else if retrieved p \<noteq> [] then finish msg p ANSWERING Answered answer None
          else finish msg p ESCALATED Escalated (handoff_notice cfg) None
      | (Invoke (TransferToSupport reason), n') \<Rightarrow>
          finish msg (log_tool TransferToSupportTool reason [] p) ESCALATED Escalated
            (handoff_notice cfg) None
      | (CallFailed, n') \<Rightarrow>
          finish msg p ESCALATED Escalated (apology cfg) (Some LLMCallError)
      | (Invoke (RetrieveDocument q), n') \<Rightarrow>
          (case budget of
             0 \<Rightarrow> finish msg p ESCALATED Escalated (handoff_notice cfg) (Some ToolBudgetExceeded)
           | Suc b \<Rightarrow>
               (let rs = retrieve cfg search q;
                    p' = (log_tool RetrieveDocumentTool q rs p)
                           \<lparr>visited := visited p @ [RETRIEVING],
                            retrieved := retrieved p @ rs,
                            iterations := Suc (iterations p)\<rparr>
                in agent_loop cfg model search msg b n' (ctx @ [ToolResult rs]) p')))"

text \<open>
  Modelled from the spec: one agent turn of the orchestrator, which is not among the source
  files, from \<open>START\<close> with the whole budget.
\<close>

definition run_turn ::
  "config \<Rightarrow> llm \<Rightarrow> (string \<Rightarrow> ResultSet) \<Rightarrow> conversation \<Rightarrow> string \<Rightarrow> ConversationTurn"
where
  "run_turn cfg model search history msg =
     agent_loop cfg model search msg (max_iterations cfg) 0 (history @ [UserMessage msg])
       \<lparr>visited = [START], retrieved = [], tool_log = [], iterations = 0\<rparr>"

text \<open>
  Every retrieval result of a tool log scores below the floor: of every record, every
  result the tool returned scores below the minimum-score floor. \<open>retrieval_made\<close>: the
  log holds the call of a retrieval.
\<close>

definition below_floor :: "config \<Rightarrow> ToolCallRecord list \<Rightarrow> bool" where
  "below_floor cfg lg \<longleftrightarrow> list_all (\<lambda>r. list_all (\<lambda>c. score c < min_score cfg) (result r)) lg"

definition retrieval_made :: "ToolCallRecord list \<Rightarrow> bool" where
  "retrieval_made lg \<longleftrightarrow> list_ex (\<lambda>r. rec_kind r = CallRecord \<and> tool_name r = RetrieveDocumentTool) lg"

text \<open>
  The shape of a turn that started from progress \<open>p\<close> with the given budget: \<open>k\<close>
  retrievals, then the state \<open>st\<close>, then \<open>DONE\<close>.
\<close>

definition loop_shape :: "nat \<Rightarrow> progress \<Rightarrow> ConversationTurn \<Rightarrow> nat \<Rightarrow> agent_state \<Rightarrow> bool" where
  "loop_shape budget p T k st \<longleftrightarrow>
     k \<le> budget \<and> iterations T = iterations p + k \<and>
     visited T = visited p @ replicate k RETRIEVING @ [st, DONE] \<and>
     (st = DIRECT_ANSWER \<or> st = ANSWERING \<or> st = ESCALATED) \<and>
     (st = ESCALATED) = (decision T = Escalated) \<and>
     (st = DIRECT_ANSWER \<longrightarrow> iterations p + k = 0) \<and>
     (st = ANSWERING \<longrightarrow> retrieved T \<noteq> []) \<and>
     (fault T = Some ToolBudgetExceeded \<longrightarrow> k = budget \<and> st = ESCALATED)"

subsection \<open>Concrete turns\<close>

text \<open>
  A configuration with a budget of four retrievals and a floor of 50, a corpus whose best
  candidate scores 40 and one whose second candidate scores 60, and three LLMs: one that
  asks for another retrieval at every call, one that retrieves once and then answers, one
  that answers a greeting.
\<close>

definition demo_config :: config where
  "demo_config = \<lparr>max_iterations = 4, min_score = 50, top_k = 3,
                   handoff_notice = ''Transferring you to support.'',
                   apology = ''Sorry, something went wrong.''\<rparr>"

definition weak_search :: "string \<Rightarrow> ResultSet" where
  "weak_search q = [\<lparr>ref_document_id = ''d1'', ref_chunk_id = ''c1'', score = 40\<rparr>,
                   \<lparr>ref_document_id = ''d2'', ref_chunk_id = ''c7'', score = 12\<rparr>]"

definition mixed_search :: "string \<Rightarrow> ResultSet" where
  "mixed_search q = [\<lparr>ref_document_id = ''d1'', ref_chunk_id = ''c1'', score = 40\<rparr>,
                    \<lparr>ref_document_id = ''d2'', ref_chunk_id = ''c7'', score = 60\<rparr>]"


definition answers_after_one :: llm where
  "answers_after_one n ctx =
     (if n = 0 then Invoke (RetrieveDocument ''refund policy'')
      else PlainText ''Refunds take 30 days.'')"

definition greets :: llm where
  "greets n ctx = PlainText ''Hello!''"

section \<open>Properties\<close>

lemma split_blank_nonempty: "split_blank s \<noteq> []"
  by (induction s rule: split_blank.induct) (auto simp: cons_first_def split: list.splits)

subsection \<open>Splitting a stream into blocks\<close>

lemma butlast_cons_first:
  "ps \<noteq> [] \<Longrightarrow> butlast (cons_first c ps) = (if butlast ps = [] then [] else cons_first c (butlast ps))"
  by (cases ps) (auto simp: cons_first_def split: list.splits)

lemma last_cons_first:
  "ps \<noteq> [] \<Longrightarrow> last (cons_first c ps) = (if butlast ps = [] then c # last ps else last ps)"
  by (cases ps) (auto simp: cons_first_def split: list.splits)

lemma cons_first_append:
  "ps \<noteq> [] \<Longrightarrow> cons_first c (ps @ qs) = cons_first c ps @ qs"
  by (cases ps) (auto simp: cons_first_def)

lemma split_blank_sep: "split_blank (LF # LF # cs) = [] # split_blank cs"
  by simp

lemma split_blank_step:
  "\<not> (c = LF \<and> d = LF) \<Longrightarrow> split_blank (c # d # cs) = cons_first c (split_blank (d # cs))"
  by auto

lemma cons_first_nonempty: "cons_first c ps \<noteq> []"
  by (simp add: cons_first_def split: list.splits)

lemma butlast_Nil_iff: "ps \<noteq> [] \<Longrightarrow> butlast ps = [] \<longleftrightarrow> ps = [last ps]"
  by (cases ps rule: rev_cases) auto

lemma split_blank_single:
  "butlast (split_blank s) = [] \<Longrightarrow> split_blank s = [s]"
proof (induction s rule: split_blank.induct)
  case 1
  show ?case by simp
next
  case (2 c)
  show ?case by simp
next
  case (3 c d cs)
  show ?case
  proof (cases "c = LF \<and> d = LF")
    case True
    with 3(3) show ?thesis by (simp add: split_blank_nonempty)
  next
    case False
    have step: "split_blank (c # d # cs) = cons_first c (split_blank (d # cs))"
      using False by (rule split_blank_step)
    from 3(3) have "butlast (split_blank (d # cs)) = []"
      unfolding step by (simp add: butlast_cons_first split_blank_nonempty cons_first_nonempty split: if_splits)
    then have "split_blank (d # cs) = [d # cs]" by (rule 3(2)[OF False])
    then show ?thesis unfolding step by (simp add: cons_first_def)
  qed
qed

lemma split_blank_append:
  "butlast (split_blank (s @ t)) =
     butlast (split_blank s) @ butlast (split_blank (last (split_blank s) @ t)) \<and>
   last (split_blank (s @ t)) = last (split_blank (last (split_blank s) @ t))"
proof (induction s rule: split_blank.induct)
  case 1
  show ?case by simp
next
  case (2 c)
  show ?case by simp
next
  case (3 c d cs)
  show ?case
  proof (cases "c = LF \<and> d = LF")
    case True
    then have a: "split_blank (c # d # cs) = [] # split_blank cs"
      and b: "split_blank ((c # d # cs) @ t) = [] # split_blank (cs @ t)"
      by simp_all
    from 3(1)[OF True] show ?thesis
      unfolding a b by (simp add: split_blank_nonempty)
  next
    case False
    have a: "split_blank (c # d # cs) = cons_first c (split_blank (d # cs))"
      using False by (rule split_blank_step)
    have b: "split_blank ((c # d # cs) @ t) = cons_first c (split_blank ((d # cs) @ t))"
      using False by auto
    note IH = 3(2)[OF False]
    show ?thesis
    proof (cases "butlast (split_blank (d # cs)) = []")
      case True
      then have "split_blank (d # cs) = [d # cs]" by (rule split_blank_single)
      then have "split_blank (c # d # cs) = [c # d # cs]"
        unfolding a by (simp add: cons_first_def)
      then show ?thesis by (simp del: split_blank.simps)
    next
      case nonempty: False
      have c1: "butlast (split_blank (c # d # cs)) = cons_first c (butlast (split_blank (d # cs)))"
        and c2: "last (split_blank (c # d # cs)) = last (split_blank (d # cs))"
        unfolding a using nonempty by (simp_all add: butlast_cons_first last_cons_first split_blank_nonempty)
      have ne: "butlast (split_blank ((d # cs) @ t)) \<noteq> []"
        using IH nonempty by (simp del: split_blank.simps)
      have d1: "butlast (split_blank ((c # d # cs) @ t)) = cons_first c (butlast (split_blank ((d # cs) @ t)))"
        and d2: "last (split_blank ((c # d # cs) @ t)) = last (split_blank ((d # cs) @ t))"
        unfolding b using ne by (simp_all add: butlast_cons_first last_cons_first split_blank_nonempty del: split_blank.simps)
      show ?thesis
        unfolding c1 c2 d1 d2 using IH nonempty
        by (simp add: cons_first_append del: split_blank.simps)
    qed
  qed
qed

lemma split_blank_last_stable:
  "split_blank (last (split_blank s)) = [last (split_blank s)]"
proof (induction s rule: split_blank.induct)
  case 1
  show ?case by simp
next
  case (2 c)
  show ?case by simp
next
  case (3 c d cs)
  show ?case
  proof (cases "c = LF \<and> d = LF")
    case True
    then have a: "split_blank (c # d # cs) = [] # split_blank cs" by simp
    from 3(1)[OF True] show ?thesis unfolding a by (simp add: split_blank_nonempty)
  next
    case False
    have a: "split_blank (c # d # cs) = cons_first c (split_blank (d # cs))"
      using False by (rule split_blank_step)
    show ?thesis
    proof (cases "butlast (split_blank (d # cs)) = []")
      case True
      then have "split_blank (d # cs) = [d # cs]" by (rule split_blank_single)
      then have "split_blank (c # d # cs) = [c # d # cs]"
        unfolding a by (simp add: cons_first_def)
      then show ?thesis by (simp del: split_blank.simps)
    next
      case nonempty: False
      have "last (split_blank (c # d # cs)) = last (split_blank (d # cs))"
        unfolding a using nonempty by (simp add: last_cons_first split_blank_nonempty)
      with 3(2)[OF False] show ?thesis by (simp del: split_blank.simps)
    qed
  qed
qed

lemma replace_first_prefix:
  "startsWith s p \<Longrightarrow> replace_first p [] s = drop (length p) s"
  by (cases s) (auto simp: startsWith_def)

lemma for_parts_append:
  "for_parts parse f st (xs @ ys) =
     (case for_parts parse f st xs of
        (st', Some e) \<Rightarrow> (st', Some e)
      | (st', None) \<Rightarrow> for_parts parse f st' ys)"
  by (induction xs arbitrary: st) (auto simp: Let_def split: option.splits)

lemma for_parts_payloads:
  "for_parts parse f st parts =
     (foldl f st (parsed_prefix parse (map block_payload (filter is_data_block parts))),
      if list_all (\<lambda>p. parse p \<noteq> None) (map block_payload (filter is_data_block parts))
      then None else Some SyntaxError)"
proof (induction parts arbitrary: st)
  case Nil
  show ?case by simp
next
  case (Cons b parts)
  show ?case
  proof (cases "is_data_block b")
    case False
    then show ?thesis using Cons by (simp add: is_data_block_def)
  next
    case True
    then have "replace_first (js ''data:'') [] (trim b) = drop (length (js ''data:'')) (trim b)"
      unfolding is_data_block_def by (rule replace_first_prefix)
    then have pl: "trim (replace_first (js ''data:'') [] (trim b)) = block_payload b"
      by (simp add: block_payload_def)
    show ?thesis
    proof (cases "parse (block_payload b)")
      case None
      with True pl show ?thesis by (simp add: is_data_block_def[symmetric])
    next
      case (Some e)
      with True pl Cons show ?thesis by (simp add: is_data_block_def[symmetric])
    qed
  qed
qed

lemma read_loop_whole:
  "split_blank buffer = [buffer] \<Longrightarrow>
   read_loop parse f buffer st pieces =
     for_parts parse f st (butlast (split_blank (buffer @ concat pieces)))"
proof (induction pieces arbitrary: buffer st)
  case Nil
  then show ?case by simp
next
  case (Cons piece pieces)
  let ?parts = "split_blank (buffer @ piece)"
  have stable: "split_blank (last ?parts) = [last ?parts]"
    by (rule split_blank_last_stable)
  have whole: "butlast (split_blank ((buffer @ piece) @ concat pieces)) =
                 butlast ?parts @ butlast (split_blank (last ?parts @ concat pieces))"
    using split_blank_append[of "buffer @ piece" "concat pieces"] by blast
  show ?case
  proof (cases "for_parts parse f st (butlast ?parts)")
    case (Pair st' thrown)
    show ?thesis
    proof (cases thrown)
      case None
      with Pair Cons.IH[OF stable, of st'] whole show ?thesis
        by (simp add: split_blank_nonempty for_parts_append Let_def del: split_blank.simps)
    next
      case (Some e)
      with Pair whole show ?thesis
        by (simp add: split_blank_nonempty for_parts_append Let_def del: split_blank.simps)
    qed
  qed
qed

lemma read_loop_payloads:
  "read_loop parse f [] st pieces =
     (foldl f st (parsed_prefix parse (data_payloads (concat pieces))),
      if list_all (\<lambda>p. parse p \<noteq> None) (data_payloads (concat pieces))
      then None else Some SyntaxError)"
  by (simp add: read_loop_whole for_parts_payloads data_payloads_def terminated_blocks_def)

lemma parsed_prefix_all:
  "list_all (\<lambda>p. parse p \<noteq> None) ps \<Longrightarrow> parsed_prefix parse ps = map (\<lambda>p. the (parse p)) ps"
  by (induction ps) auto

subsection \<open>\<^verbatim>\<open>streamChat\<close>: the events of a stream\<close>

text \<open>
  Claim C7, amended. When the response is ok and has a body, \<^verbatim>\<open>streamChat\<close> invokes
  \<open>onEvent\<close> once, in stream order, for each block terminated by a blank line whose trimmed
  text starts with \<^verbatim>\<open>data:\<close>, passing the parsed payload after the prefix, up to the first
  such block whose payload the parser rejects: there \<^verbatim>\<open>streamChat\<close> throws the
  \<^verbatim>\<open>SyntaxError\<close> and delivers nothing more. A block not followed by a blank line before
  the stream ends is never delivered. When every payload parses, every data block is
  delivered. The events delivered and what is thrown depend on the text of the whole
  stream only, not on how it is cut into pieces.
\<close>

theorem streamChat_events_by_block:
  assumes "fetch (chat_request api_base sid message) = res" and "ok res" and "body res = Some pieces"
  shows "streamChat api_base fetch parse sid message onEvent st =
           (foldl onEvent st (parsed_prefix parse (data_payloads (concat pieces))),
            if list_all (\<lambda>p. parse p \<noteq> None) (data_payloads (concat pieces))
            then None else Some SyntaxError) \<and>
         (list_all (\<lambda>p. parse p \<noteq> None) (data_payloads (concat pieces)) \<longrightarrow>
            parsed_prefix parse (data_payloads (concat pieces)) =
              map (\<lambda>p. the (parse p)) (data_payloads (concat pieces))) \<and>
         (\<forall>res' pieces'. ok res' \<and> body res' = Some pieces' \<and> concat pieces' = concat pieces \<longrightarrow>
            streamChat api_base (\<lambda>_. res') parse sid message onEvent st =
              streamChat api_base fetch parse sid message onEvent st)"
proof -
  have run: "\<And>r ps f. ok r \<Longrightarrow> body r = Some ps \<Longrightarrow> f (chat_request api_base sid message) = r \<Longrightarrow>
      streamChat api_base f parse sid message onEvent st = read_loop parse onEvent [] st ps"
    by (simp add: streamChat_def handleResponse_def)
  have here: "streamChat api_base fetch parse sid message onEvent st = read_loop parse onEvent [] st pieces"
    using assms by (simp add: run)
  have there: "streamChat api_base (\<lambda>_. res') parse sid message onEvent st =
                 read_loop parse onEvent [] st pieces'"
    if "ok res'" "body res' = Some pieces'" for res' pieces'
    using that by (simp add: run)
  show ?thesis
    using here there by (simp add: read_loop_payloads parsed_prefix_all)
qed

text \<open>
  A stream of two data blocks cut inside a payload and inside a blank line, with a comment
  block and an unterminated last block.
\<close>

theorem streamChat_events_by_block_witness:
  "streamChat (js ''http://localhost:8000'')
     (\<lambda>_. \<lparr>ok = True, statusText = js ''OK'',
            body = Some [js ''data: tr'', js ''ue\<newline>\<newline>data:'', js '' false\<newline>'', js ''\<newline>: ping\<newline>\<newline>data: null'']\<rparr>)
     json_parse None (js ''hi'') collect []
   = ([JBool True, JBool False], None)"
proof -
  let ?pieces = "[js ''data: tr'', js ''ue\<newline>\<newline>data:'', js '' false\<newline>'', js ''\<newline>: ping\<newline>\<newline>data: null'']"
  let ?res = "\<lparr>ok = True, statusText = js ''OK'', body = Some ?pieces\<rparr>"
  have val: "(foldl collect [] (parsed_prefix json_parse (data_payloads (concat ?pieces))),
              if list_all (\<lambda>p. json_parse p \<noteq> None) (data_payloads (concat ?pieces))
              then None else Some SyntaxError) = ([JBool True, JBool False], None)"
    by code_simp
  have "ok ?res" and "body ?res = Some ?pieces" by simp_all
  from streamChat_events_by_block[where fetch = "\<lambda>_. ?res" and api_base = "js ''http://localhost:8000''"
      and sid = None and message = "js ''hi''" and parse = json_parse and onEvent = collect
      and st = "[]", OF refl this]
  show ?thesis unfolding val by blast
qed

text \<open>
  Claim C7 as stated fails on a stream whose second data block holds a payload that is not
  JSON: the stream has three terminated data blocks, the third with a payload that parses,
  and \<open>onEvent\<close> is invoked for the first only.
\<close>

theorem streamChat_stops_at_rejected_payload:
  "data_payloads (js ''data: true\<newline>\<newline>data: {\<newline>\<newline>data: false\<newline>\<newline>'') = [js ''true'', js ''{'', js ''false''] \<and>
   json_parse (js ''false'') = Some (JBool False) \<and>
   streamChat (js ''http://localhost:8000'')
     (\<lambda>_. \<lparr>ok = True, statusText = js ''OK'',
            body = Some [js ''data: true\<newline>\<newline>data: {\<newline>\<newline>data: false\<newline>\<newline>'']\<rparr>)
     json_parse None (js ''hi'') collect []
   = ([JBool True], Some SyntaxError)"
  by code_simp

subsection \<open>The API client: when it throws\<close>




subsection \<open>The chat view: one turn\<close>

lemma updateAssistant_push:
  assumes "messages st = [] \<or> role (last (messages st)) \<noteq> Assistant"
  shows "messages (updateAssistant u d t c l st) =
           messages st @ [\<lparr>msg_id = None, role = Assistant, content = u [], created_at = None,
              documents = d, support = None, tools = t, chunks = c, toolLogs = l,
              tool_logs = None\<rparr>]"
proof (cases "messages st = []")
  case True
  then show ?thesis by (simp add: updateAssistant_def Let_def)
next
  case False
  then have "messages st ! nat (int (length (messages st)) - 1) = last (messages st)"
    by (simp add: last_conv_nth nat_diff_distrib')
  with assms False show ?thesis by (simp add: updateAssistant_def Let_def)
qed

lemma updateAssistant_rewrite:
  assumes "messages st = base @ [m]" and "role m = Assistant"
  shows "messages (updateAssistant u d t c l st) =
           base @ [m\<lparr>content := u (content m), documents := nullish d (documents m),
                     tools := nullish t (tools m), chunks := nullish c (chunks m),
                     toolLogs := nullish l (toolLogs m)\<rparr>]"
proof -
  have idx: "nat (int (length (messages st)) - 1) = length base"
    using assms(1) by simp
  show ?thesis
    using assms by (simp add: updateAssistant_def Let_def idx del: of_nat_add)
qed

lemma updateAssistant_frame:
  "sessionId (updateAssistant u d t c l st) = sessionId st \<and>
   input (updateAssistant u d t c l st) = input st \<and>
   streaming (updateAssistant u d t c l st) = streaming st \<and>
   replaced (updateAssistant u d t c l st) = replaced st \<and>
   console_errors (updateAssistant u d t c l st) = console_errors st"
  by (simp add: updateAssistant_def Let_def)


lemma onChatEvent_first:
  assumes "messages st = base @ [u]" and "role u = User"
  shows "\<exists>m. messages (onChatEvent sid st e) = base @ [u, m] \<and> role m = Assistant \<and>
             content m = (case e of Delta tok \<Rightarrow> tok | Final _ txt _ _ _ _ _ \<Rightarrow> txt | Tool _ _ _ \<Rightarrow> [])"
proof -
  have push: "messages s = [] \<or> role (last (messages s)) \<noteq> Assistant"
    if "messages s = messages st" for s :: ChatView
    using that assms by simp
  show ?thesis
  proof (cases e)
    case (Delta tok)
    then show ?thesis using assms updateAssistant_push[OF push[OF refl]] by simp
  next
    case (Final new_sid ftext docs spt tls chs tlogs)
    have "messages (st\<lparr>sessionId := Some new_sid\<rparr>) = messages st" by simp
    from updateAssistant_push[OF push[OF this]] Final assms show ?thesis
      by (simp add: Let_def)
  next
    case (Tool lgs dids chs)
    then show ?thesis using assms updateAssistant_push[OF push[OF refl]] by simp
  qed
qed

lemma onChatEvent_next:
  assumes "messages st = base @ [m]" and "role m = Assistant"
  shows "\<exists>m'. messages (onChatEvent sid st e) = base @ [m'] \<and> role m' = Assistant \<and>
             content m' = (case e of Delta tok \<Rightarrow> content m @ tok | Final _ txt _ _ _ _ _ \<Rightarrow> txt
                                   | Tool _ _ _ \<Rightarrow> content m)"
proof (cases e)
  case (Delta tok)
  then show ?thesis using updateAssistant_rewrite[OF assms] assms(2) by simp
next
  case (Final new_sid ftext docs spt tls chs tlogs)
  have "messages (st\<lparr>sessionId := Some new_sid\<rparr>) = base @ [m]" using assms(1) by simp
  from updateAssistant_rewrite[OF this assms(2)] Final assms(2) show ?thesis
    by (simp add: Let_def)
next
  case (Tool lgs dids chs)
  then show ?thesis using updateAssistant_rewrite[OF assms] assms(2) by simp
qed

lemma fold_deltas_next:
  assumes "messages st = base @ [m]" and "role m = Assistant"
    and "list_all (\<lambda>e. \<not> is_final e) evs"
  shows "\<exists>m'. messages (foldl (onChatEvent sid) st evs) = base @ [m'] \<and> role m' = Assistant \<and>
             content m' = content m @ delta_text evs"
  using assms
proof (induction evs arbitrary: st m)
  case Nil
  then show ?case by simp
next
  case (Cons e evs)
  from onChatEvent_next[OF Cons.prems(1,2), of sid e]
  obtain m1 where m1: "messages (onChatEvent sid st e) = base @ [m1]" "role m1 = Assistant"
    "content m1 = (case e of Delta tok \<Rightarrow> content m @ tok | Final _ txt _ _ _ _ _ \<Rightarrow> txt
                          | Tool _ _ _ \<Rightarrow> content m)"
    by blast
  from Cons.prems(3) have rest: "list_all (\<lambda>e. \<not> is_final e) evs" and nf: "\<not> is_final e"
    by simp_all
  from Cons.IH[OF m1(1,2) rest]
  obtain m' where m': "messages (foldl (onChatEvent sid) (onChatEvent sid st e) evs) = base @ [m']"
    "role m' = Assistant" "content m' = content m1 @ delta_text evs"
    by blast
  have "content m1 @ delta_text evs = content m @ delta_text (e # evs)"
    using m1(3) nf by (cases e) (simp_all add: is_final_def)
  with m' show ?case by simp
qed

lemma fold_deltas_first:
  assumes "messages st = base @ [u]" and "role u = User"
    and "list_all (\<lambda>e. \<not> is_final e) evs" and "evs \<noteq> []"
  shows "\<exists>m. messages (foldl (onChatEvent sid) st evs) = base @ [u, m] \<and> role m = Assistant \<and>
             content m = delta_text evs"
proof -
  from assms(4) obtain e es where evs: "evs = e # es" by (cases evs) auto
  from onChatEvent_first[OF assms(1,2), of sid e]
  obtain m1 where m1: "messages (onChatEvent sid st e) = (base @ [u]) @ [m1]" "role m1 = Assistant"
    "content m1 = (case e of Delta tok \<Rightarrow> tok | Final _ txt _ _ _ _ _ \<Rightarrow> txt | Tool _ _ _ \<Rightarrow> [])"
    by auto
  from assms(3) evs have rest: "list_all (\<lambda>e. \<not> is_final e) es" and nf: "\<not> is_final e"
    by simp_all
  from fold_deltas_next[OF m1(1,2) rest, of sid]
  obtain m' where m': "messages (foldl (onChatEvent sid) (onChatEvent sid st e) es) = (base @ [u]) @ [m']"
    "role m' = Assistant" "content m' = content m1 @ delta_text es"
    by blast
  have "content m1 @ delta_text es = delta_text evs"
    using m1(3) nf evs by (cases e) (simp_all add: is_final_def)
  with m' evs show ?thesis by simp
qed

lemma fold_turn_stream:
  assumes "messages st = base @ [u]" and "role u = User" and "turn_stream evs"
  shows "\<exists>m. messages (foldl (onChatEvent sid) st evs) = base @ [u, m] \<and> role m = Assistant \<and>
             content m = final_text (last evs)"
proof -
  from assms(3) have ne: "evs \<noteq> []" and fin: "is_final (last evs)"
    and pre: "list_all (\<lambda>e. \<not> is_final e) (butlast evs)"
    by (simp_all add: turn_stream_def)
  from fin obtain a b c d e f g where lst: "last evs = Final a b c d e f g"
    by (cases "last evs") (simp_all add: is_final_def)
  have split: "foldl (onChatEvent sid) st evs =
                 onChatEvent sid (foldl (onChatEvent sid) st (butlast evs)) (last evs)"
    using ne by (metis append_butlast_last_id foldl_Cons foldl_Nil foldl_append)
  show ?thesis
  proof (cases "butlast evs = []")
    case True
    with split have "foldl (onChatEvent sid) st evs = onChatEvent sid st (last evs)" by simp
    with onChatEvent_first[OF assms(1,2), of sid "last evs"] lst show ?thesis by simp
  next
    case False
    from fold_deltas_first[OF assms(1,2) pre False, of sid]
    obtain m where m: "messages (foldl (onChatEvent sid) st (butlast evs)) = (base @ [u]) @ [m]"
      "role m = Assistant" by auto
    from onChatEvent_next[OF m, of sid "last evs"] split lst show ?thesis by simp
  qed
qed


lemma fold_events_next:
  assumes "messages st = base @ [m]" and "role m = Assistant"
  shows "\<exists>m'. messages (foldl (onChatEvent sid) st evs) = base @ [m'] \<and> role m' = Assistant"
  using assms
proof (induction evs arbitrary: st m)
  case Nil
  then show ?case by simp
next
  case (Cons e evs)
  from onChatEvent_next[OF Cons.prems, of sid e]
  obtain m1 where "messages (onChatEvent sid st e) = base @ [m1]" "role m1 = Assistant"
    by blast
  from Cons.IH[OF this] show ?case by simp
qed

lemma fold_events_tail:
  assumes "messages st = base @ [u]" and "role u = User"
  shows "\<exists>tl. messages (foldl (onChatEvent sid) st evs) = base @ u # tl \<and>
              list_all (\<lambda>m. role m = Assistant) tl"
proof (cases evs)
  case Nil
  with assms show ?thesis by simp
next
  case (Cons e es)
  from onChatEvent_first[OF assms, of sid e]
  obtain m1 where "messages (onChatEvent sid st e) = (base @ [u]) @ [m1]" "role m1 = Assistant"
    by auto
  from fold_events_next[OF this, of sid es] Cons show ?thesis by auto
qed

lemma handleSend_begin_Some:
  "handleSend_begin st = Some (st1, txt) \<longleftrightarrow>
     trim (input st) \<noteq> [] \<and> \<not> streaming st \<and> txt = trim (input st) \<and>
     st1 = st\<lparr>streaming := True, input := [], messages := messages st @ [user_message txt]\<rparr>"
  by (auto simp: handleSend_begin_def appendMessage_def Let_def)

lemma streamChat_traced_run:
  "streamChat_traced api_base fetch parse sid message onEvent st sent =
     (streamChat api_base fetch parse sid message onEvent st,
      sent @ [chat_request api_base sid message])"
  by (simp add: streamChat_traced_def streamChat_def send_def split: sum.splits option.splits)

lemma streamChat_fold:
  "\<exists>evs thrown. streamChat api_base fetch parse sid message onEvent st = (foldl onEvent st evs, thrown)"
proof (cases "ok (fetch (chat_request api_base sid message))")
  case False
  then have "streamChat api_base fetch parse sid message onEvent st =
               (foldl onEvent st [], Some (Error (if res_text (fetch (chat_request api_base sid message)) \<noteq> []
                  then res_text (fetch (chat_request api_base sid message))
                  else statusText (fetch (chat_request api_base sid message)))))"
    by (simp add: streamChat_def handleResponse_def)
  then show ?thesis by blast
next
  case True
  show ?thesis
  proof (cases "body (fetch (chat_request api_base sid message))")
    case None
    with True have "streamChat api_base fetch parse sid message onEvent st =
                      (foldl onEvent st [], Some (Error (js ''No stream body'')))"
      by (simp add: streamChat_def handleResponse_def)
    then show ?thesis by blast
  next
    case (Some pieces)
    with True have "streamChat api_base fetch parse sid message onEvent st =
                      read_loop parse onEvent [] st pieces"
      by (simp add: streamChat_def handleResponse_def)
    then show ?thesis unfolding read_loop_payloads by blast
  qed
qed

lemma demo_payloads_json:
  "list_all (\<lambda>p. json_parse p \<noteq> None) demo_payloads"
  by code_simp

lemma demo_parse_payloads:
  "parsed_prefix demo_parse demo_payloads = demo_events \<and>
   list_all (\<lambda>p. demo_parse p \<noteq> None) demo_payloads"
  by (simp add: demo_parse_def demo_payloads_def demo_events_def js_def)

lemma demo_begin:
  "handleSend_begin demo_view =
     Some (demo_view\<lparr>streaming := True, input := [], messages := [user_message (js ''hi'')]\<rparr>, js ''hi'')"
  by (simp add: handleSend_begin_Some demo_view_def trim_def js_def is_js_space_def)

text \<open>
  Claim C9. When the input trims to the empty string or a stream is in progress,
  \<^verbatim>\<open>handleSend\<close> sends no request (the network has seen what it had seen before) and leaves
  the whole state, the message list, the session id, the input text and the streaming flag
  with it, as it was. Otherwise \<^verbatim>\<open>streamChat\<close> is called in a state whose message list is the
  old one with exactly one message appended, of role \<^verbatim>\<open>user\<close>, its content the trimmed
  text and nothing else in it; the call of \<^verbatim>\<open>fetch\<close> in \<^verbatim>\<open>streamChat\<close> sends exactly one
  request, the \<^verbatim>\<open>POST\<close> of the session id and the trimmed text to \<^verbatim>\<open>/api/chat/stream\<close>; and in
  the state \<^verbatim>\<open>handleSend\<close> leaves the user's message stands where it was appended, every
  message after it being the assistant's.
\<close>

theorem handleSend_guard:
  "(trim (input st) = [] \<or> streaming st \<longrightarrow>
      handleSend api_base fetch parse syntax_text st sent = (st, sent)) \<and>
   (trim (input st) \<noteq> [] \<and> \<not> streaming st \<longrightarrow>
      handleSend_begin st =
        Some (st\<lparr>streaming := True, input := [],
                 messages := messages st @
                   [\<lparr>msg_id = None, role = User, content = trim (input st), created_at = None,
                     documents = None, support = None, tools = None, chunks = None,
                     toolLogs = None, tool_logs = None\<rparr>]\<rparr>,
              trim (input st)) \<and>
      snd (handleSend api_base fetch parse syntax_text st sent) =
        sent @
        [\<lparr>req_method = js ''POST'', req_url = api_base @ js ''/api/chat/stream'',
          headers = [(js ''Content-Type'', js ''application/json'')],
          req_body = JsonBody (JObject
            [(js ''session_id'', (case sessionId st of None \<Rightarrow> JNull | Some i \<Rightarrow> JString i)),
             (js ''message'', JString (trim (input st)))])\<rparr>] \<and>
      (\<exists>tl. messages (fst (handleSend api_base fetch parse syntax_text st sent)) =
               messages st @
               \<lparr>msg_id = None, role = User, content = trim (input st), created_at = None,
                 documents = None, support = None, tools = None, chunks = None,
                 toolLogs = None, tool_logs = None\<rparr> # tl \<and>
             list_all (\<lambda>m. role m = Assistant) tl))"
proof (intro conjI impI)
  assume "trim (input st) = [] \<or> streaming st"
  then show "handleSend api_base fetch parse syntax_text st sent = (st, sent)"
    by (auto simp: handleSend_def handleSend_begin_def Let_def)
next
  assume go: "trim (input st) \<noteq> [] \<and> \<not> streaming st"
  let ?txt = "trim (input st)"
  let ?u = "\<lparr>msg_id = None, role = User, content = ?txt, created_at = None,
             documents = None, support = None, tools = None, chunks = None,
             toolLogs = None, tool_logs = None\<rparr>"
  let ?st1 = "st\<lparr>streaming := True, input := [], messages := messages st @ [?u]\<rparr>"
  have u: "user_message ?txt = ?u" by (simp add: user_message_def)
  show started: "handleSend_begin st = Some (?st1, ?txt)"
    using go by (simp add: handleSend_begin_Some u)
  show "snd (handleSend api_base fetch parse syntax_text st sent) =
          sent @
          [\<lparr>req_method = js ''POST'', req_url = api_base @ js ''/api/chat/stream'',
            headers = [(js ''Content-Type'', js ''application/json'')],
            req_body = JsonBody (JObject
              [(js ''session_id'', (case sessionId st of None \<Rightarrow> JNull | Some i \<Rightarrow> JString i)),
               (js ''message'', JString ?txt)])\<rparr>]"
    by (simp add: handleSend_def started streamChat_traced_run chat_request_def json_headers_def
        Let_def split: prod.splits)
  obtain evs thrown where run:
    "streamChat api_base fetch parse (sessionId st) ?txt (onChatEvent (sessionId st)) ?st1 =
       (foldl (onChatEvent (sessionId st)) ?st1 evs, thrown)"
    using streamChat_fold[of api_base fetch parse "sessionId st" ?txt "onChatEvent (sessionId st)" ?st1]
    by blast
  have "messages ?st1 = messages st @ [?u]" and "role ?u = User"
    by simp_all
  from fold_events_tail[OF this, of "sessionId st" evs]
  obtain tl where tl: "messages (foldl (onChatEvent (sessionId st)) ?st1 evs) =
                         messages st @ ?u # tl"
    "list_all (\<lambda>m. role m = Assistant) tl"
    by blast
  show "\<exists>tl. messages (fst (handleSend api_base fetch parse syntax_text st sent)) =
               messages st @ ?u # tl \<and> list_all (\<lambda>m. role m = Assistant) tl"
  proof (cases thrown)
    case None
    with run tl have "messages (fst (handleSend api_base fetch parse syntax_text st sent)) =
                        messages st @ ?u # tl"
      by (simp add: handleSend_def started streamChat_traced_run Let_def)
    with tl(2) show ?thesis by blast
  next
    case (Some err)
    with run tl have "messages (fst (handleSend api_base fetch parse syntax_text st sent)) =
                        messages st @ ?u # (tl @ [error_message syntax_text err])"
      by (simp add: handleSend_def started streamChat_traced_run Let_def appendMessage_def)
    moreover have "list_all (\<lambda>m. role m = Assistant) (tl @ [error_message syntax_text err])"
      using tl(2) by (simp add: error_message_def)
    ultimately show ?thesis by blast
  qed
qed

text \<open>
  The view with only white space typed in, the view with a stream in progress, and the
  view with \<^verbatim>\<open>" hi  "\<close> typed in, the network having seen nothing yet.
\<close>

theorem handleSend_guard_witness:
  "handleSend (js ''http://localhost:8000'') demo_fetch demo_parse (js ''Unexpected token'')
       (demo_view\<lparr>input := js ''  ''\<rparr>) [] = (demo_view\<lparr>input := js ''  ''\<rparr>, []) \<and>
   handleSend (js ''http://localhost:8000'') demo_fetch demo_parse (js ''Unexpected token'')
       (demo_view\<lparr>streaming := True\<rparr>) [] = (demo_view\<lparr>streaming := True\<rparr>, []) \<and>
   handleSend_begin demo_view =
     Some (demo_view\<lparr>streaming := True, input := [],
             messages := [\<lparr>msg_id = None, role = User, content = js ''hi'', created_at = None,
                           documents = None, support = None, tools = None, chunks = None,
                           toolLogs = None, tool_logs = None\<rparr>]\<rparr>, js ''hi'') \<and>
   snd (handleSend (js ''http://localhost:8000'') demo_fetch demo_parse (js ''Unexpected token'')
          demo_view []) =
     [\<lparr>req_method = js ''POST'', req_url = js ''http://localhost:8000/api/chat/stream'',
       headers = [(js ''Content-Type'', js ''application/json'')],
       req_body = JsonBody (JObject [(js ''session_id'', JNull), (js ''message'', JString (js ''hi''))])\<rparr>] \<and>
   (\<exists>tl. messages (fst (handleSend (js ''http://localhost:8000'') demo_fetch demo_parse
                          (js ''Unexpected token'') demo_view [])) =
           \<lparr>msg_id = None, role = User, content = js ''hi'', created_at = None,
             documents = None, support = None, tools = None, chunks = None,
             toolLogs = None, tool_logs = None\<rparr> # tl \<and>
         list_all (\<lambda>m. role m = Assistant) tl)"
proof -
  let ?api = "js ''http://localhost:8000''"
  let ?u = "\<lparr>msg_id = None, role = User, content = js ''hi'', created_at = None,
             documents = None, support = None, tools = None, chunks = None,
             toolLogs = None, tool_logs = None\<rparr>"
  note inst = handleSend_guard[of _ ?api demo_fetch demo_parse "js ''Unexpected token''" "[]"]
  have blank: "trim (input (demo_view\<lparr>input := js ''  ''\<rparr>)) = []"
    by (simp add: trim_def js_def is_js_space_def)
  have busy: "streaming (demo_view\<lparr>streaming := True\<rparr>)" by simp
  have go: "trim (input demo_view) = js ''hi'' \<and> \<not> streaming demo_view \<and>
            messages demo_view = [] \<and> sessionId demo_view = None"
    by (simp add: demo_view_def trim_def js_def is_js_space_def)
  then have ne: "trim (input demo_view) \<noteq> []" by (simp add: js_def)
  from inst[of "demo_view\<lparr>input := js ''  ''\<rparr>"]
  have c1: "handleSend ?api demo_fetch demo_parse (js ''Unexpected token'')
              (demo_view\<lparr>input := js ''  ''\<rparr>) [] = (demo_view\<lparr>input := js ''  ''\<rparr>, [])"
    using blank by blast
  from inst[of "demo_view\<lparr>streaming := True\<rparr>"] busy
  have c2: "handleSend ?api demo_fetch demo_parse (js ''Unexpected token'')
              (demo_view\<lparr>streaming := True\<rparr>) [] = (demo_view\<lparr>streaming := True\<rparr>, [])"
    by blast
  have url: "?api @ js ''/api/chat/stream'' = js ''http://localhost:8000/api/chat/stream''"
    by (simp add: js_def)
  from inst[of demo_view] go ne
  have c3: "handleSend_begin demo_view =
              Some (demo_view\<lparr>streaming := True, input := [], messages := [?u]\<rparr>, js ''hi'')"
    and c4: "snd (handleSend ?api demo_fetch demo_parse (js ''Unexpected token'') demo_view []) =
              [\<lparr>req_method = js ''POST'', req_url = js ''http://localhost:8000/api/chat/stream'',
                headers = [(js ''Content-Type'', js ''application/json'')],
                req_body = JsonBody (JObject [(js ''session_id'', JNull),
                                              (js ''message'', JString (js ''hi''))])\<rparr>]"
    and c5: "\<exists>tl. messages (fst (handleSend ?api demo_fetch demo_parse (js ''Unexpected token'') demo_view [])) =
               ?u # tl \<and> list_all (\<lambda>m. role m = Assistant) tl"
    unfolding url[symmetric] by auto
  from c1 c2 c3 c4 c5 show ?thesis by blast
qed

text \<open>
  The text of the assistant's message over one turn. Let \<^verbatim>\<open>handleSend\<close> have started a
  turn, and let the events that arrive be zero or more deltas and tool notices followed by
  exactly one terminal event. After every proper prefix of the stream that is not empty,
  the message list is the old one, the user's message and one assistant message whose
  content is the tokens of the deltas received so far, in arrival order. After the
  terminal event that assistant message's content is the terminal event's full text, the
  tokens replaced by it. The same holds of the state \<^verbatim>\<open>handleSend\<close> leaves when
  \<^verbatim>\<open>streamChat\<close> delivers exactly these events. The ordering of the events is assumed: the
  client takes the events as they come, and a delta that arrives after the terminal event
  is appended to the full text.
\<close>

lemma ordered_stream_consumed:
  assumes "handleSend_begin st = Some (st1, utext)" and "turn_stream evs"
  shows "(\<forall>n. 0 < n \<and> n < length evs \<longrightarrow>
            (\<exists>m. messages (foldl (onChatEvent sid) st1 (take n evs)) =
                    messages st @ [user_message utext, m] \<and>
                  role m = Assistant \<and> content m = delta_text (take n evs))) \<and>
         (\<exists>m. messages (foldl (onChatEvent sid) st1 evs) = messages st @ [user_message utext, m] \<and>
               role m = Assistant \<and> content m = final_text (last evs)) \<and>
         (\<forall>fetch parse pieces.
            ok (fetch (chat_request api_base (sessionId st) utext)) \<and>
            body (fetch (chat_request api_base (sessionId st) utext)) = Some pieces \<and>
            list_all (\<lambda>p. parse p \<noteq> None) (data_payloads (concat pieces)) \<and>
            parsed_prefix parse (data_payloads (concat pieces)) = evs \<longrightarrow>
            (\<exists>m. messages (fst (handleSend api_base fetch parse syntax_text st sent)) =
                    messages st @ [user_message utext, m] \<and>
                  role m = Assistant \<and> content m = final_text (last evs)))"
proof -
  from assms(1) have st1: "messages st1 = messages st @ [user_message utext]"
    by (simp add: handleSend_begin_Some)
  have usr: "role (user_message utext) = User" by (simp add: user_message_def)
  from assms(2) have pre: "list_all (\<lambda>e. \<not> is_final e) (butlast evs)"
    by (simp add: turn_stream_def)
  have part1: "\<exists>m. messages (foldl (onChatEvent sid) st1 (take n evs)) =
                    messages st @ [user_message utext, m] \<and>
                  role m = Assistant \<and> content m = delta_text (take n evs)"
    if n: "0 < n \<and> n < length evs" for n
  proof -
    from n have tk: "take n evs = take n (butlast evs)" by (simp add: take_butlast)
    from pre have "list_all (\<lambda>e. \<not> is_final e) (take n (butlast evs))"
      by (auto simp: list_all_iff dest: in_set_takeD)
    moreover have "length (butlast evs) = length evs - 1" by simp
    with n have "take n (butlast evs) \<noteq> []" by (cases "butlast evs") auto
    ultimately show ?thesis
      unfolding tk using fold_deltas_first[OF st1 usr] by blast
  qed
  have part2: "\<exists>m. messages (foldl (onChatEvent s) st1 evs) = messages st @ [user_message utext, m] \<and>
                 role m = Assistant \<and> content m = final_text (last evs)" for s
    using fold_turn_stream[OF st1 usr assms(2)] by blast
  have part3: "\<exists>m. messages (fst (handleSend api_base fetch parse syntax_text st sent)) =
                    messages st @ [user_message utext, m] \<and>
                  role m = Assistant \<and> content m = final_text (last evs)"
    if h: "ok (fetch (chat_request api_base (sessionId st) utext)) \<and>
           body (fetch (chat_request api_base (sessionId st) utext)) = Some pieces \<and>
           list_all (\<lambda>p. parse p \<noteq> None) (data_payloads (concat pieces)) \<and>
           parsed_prefix parse (data_payloads (concat pieces)) = evs"
    for fetch parse pieces
  proof -
    have "streamChat api_base fetch parse (sessionId st) utext (onChatEvent (sessionId st)) st1 =
            (foldl (onChatEvent (sessionId st)) st1 evs, None)"
      using h by (simp add: streamChat_def handleResponse_def read_loop_payloads)
    then have "messages (fst (handleSend api_base fetch parse syntax_text st sent)) =
                 messages (foldl (onChatEvent (sessionId st)) st1 evs)"
      using assms(1) by (simp add: handleSend_def streamChat_traced_run Let_def)
    with part2[of "sessionId st"] show ?thesis by simp
  qed
  from part1 part2 part3 show ?thesis by blast
qed

text \<open>
  A delta after the terminal event: the assistant's message ends as the full text with
  the late token appended.
\<close>

lemma late_delta_is_appended:
  "map content (messages (foldl (onChatEvent None)
       (demo_view\<lparr>messages := [user_message (js ''hi'')]\<rparr>)
       [Delta (js ''Hel''), Final (js ''s1'') (js ''Hello!'') [] False [] [] None, Delta (js ''lo'')])) =
     [js ''hi'', js ''Hello!lo'']"
  by (simp add: demo_view_def updateAssistant_def user_message_def nullish_def Let_def js_def)


subsection \<open>The terminal event\<close>

text \<open>
  Claim C2, amended. The terminal event carries, as the \<^verbatim>\<open>final\<close> variant of
  \<^verbatim>\<open>ChatStreamEvent\<close> declares, the session id, the full text, the list of cited documents,
  the support flag, the list of tools used, the list of cited chunks and, optionally, the
  tool log. The client takes the session id into its state and the text, the documents,
  the tools and the chunks into the assistant message; it takes the tool log when the
  event carries one and keeps the log the message already has otherwise; it does not
  store the support flag.
\<close>

theorem final_event_fields:
  "(let st' = onChatEvent sid st (Final new_sid ftext docs spt tls chs tlogs);
        m = last (messages st');
        prev = (if messages st \<noteq> [] \<and> role (last (messages st)) = Assistant
                then Some (last (messages st)) else None)
    in messages st' \<noteq> [] \<and> sessionId st' = Some new_sid \<and> role m = Assistant \<and>
       content m = ftext \<and> documents m = Some docs \<and> tools m = Some tls \<and>
       chunks m = Some chs \<and>
       toolLogs m = (case tlogs of Some lgs \<Rightarrow> Some lgs | None \<Rightarrow> Option.bind prev toolLogs) \<and>
       support m = Option.bind prev support)"
proof (cases "messages st \<noteq> [] \<and> role (last (messages st)) = Assistant")
  case True
  let ?st1 = "st\<lparr>sessionId := Some new_sid\<rparr>"
  from True have "messages ?st1 = butlast (messages st) @ [last (messages st)]"
    and "role (last (messages st)) = Assistant"
    by simp_all
  from updateAssistant_rewrite[OF this] True show ?thesis
    by (simp add: Let_def updateAssistant_frame nullish_def split: option.splits)
next
  case False
  let ?st1 = "st\<lparr>sessionId := Some new_sid\<rparr>"
  from False have "messages ?st1 = [] \<or> role (last (messages ?st1)) \<noteq> Assistant"
    by auto
  from updateAssistant_push[OF this] False show ?thesis
    by (auto simp: Let_def updateAssistant_frame nullish_def split: option.splits)
qed

text \<open>The terminal event of the concrete turn, after two deltas and a tool notice.\<close>

theorem final_event_fields_witness:
  "(let st' = foldl (onChatEvent None) (demo_view\<lparr>messages := [user_message (js ''hi'')]\<rparr>) demo_events;
        m = last (messages st')
    in sessionId st' = Some (js ''s1'') \<and> role m = Assistant \<and> content m = js ''Hello!'' \<and>
       documents m = Some [] \<and> tools m = Some [js ''retrieveDocument''] \<and> chunks m = Some [] \<and>
       toolLogs m = Some [demo_call] \<and> support m = None)"
proof -
  let ?st3 = "foldl (onChatEvent None) (demo_view\<lparr>messages := [user_message (js ''hi'')]\<rparr>) (take 3 demo_events)"
  have st3: "messages ?st3 =
       [user_message (js ''hi''),
        \<lparr>msg_id = None, role = Assistant, content = js ''Hello'', created_at = None,
         documents = None, support = None, tools = None, chunks = Some [],
         toolLogs = Some [demo_call], tool_logs = None\<rparr>]"
    by (simp add: demo_events_def demo_view_def updateAssistant_def user_message_def nullish_def
        Let_def js_def)
  have whole: "foldl (onChatEvent None) (demo_view\<lparr>messages := [user_message (js ''hi'')]\<rparr>) demo_events =
      onChatEvent None ?st3 (Final (js ''s1'') (js ''Hello!'') [] False [js ''retrieveDocument''] [] None)"
    by (simp add: demo_events_def)
  from final_event_fields[of None ?st3 "js ''s1''" "js ''Hello!''" "[]" False "[js ''retrieveDocument'']" "[]" None]
  show ?thesis
    unfolding whole by (simp add: Let_def st3)
qed

text \<open>
  Claim C2 as stated fails on a terminal event without a tool log, which the declaration
  allows and the client accepts; and the six fields the claim lists do not make up the
  event, since two terminal events can agree on all six and differ in the support flag.
\<close>

theorem final_event_without_tool_log:
  "final_tool_logs (Final (js ''s1'') (js ''Hello!'') [] False [js ''retrieveDocument''] [] None) = None \<and>
   Final (js ''s1'') (js ''Hello!'') [] False [js ''retrieveDocument''] [] None \<noteq>
     Final (js ''s1'') (js ''Hello!'') [] True [js ''retrieveDocument''] [] None \<and>
   toolLogs (last (messages (onChatEvent None (demo_view\<lparr>messages := [user_message (js ''hi'')]\<rparr>)
      (Final (js ''s1'') (js ''Hello!'') [] False [js ''retrieveDocument''] [] None)))) = None"
  by (simp add: demo_view_def updateAssistant_def user_message_def Let_def)


subsection \<open>The retrieval cache\<close>

text \<open>
  Claim C5. For every key with a stored entry and every read time, a \<open>get\<close> before the
  entry's \<open>expires_at\<close> returns exactly the stored ResultSet and a \<open>get\<close> at or after
  \<open>expires_at\<close> returns absence; a \<open>put\<close> on the key replaces the value and sets
  \<open>expires_at\<close> anew from the time of the write, so that reads after the \<open>put\<close> see the new
  value until the new expiry and nothing from then on.
\<close>

theorem cache_get_put_expiry:
  assumes "c k = Some e"
  shows "(now < expires_at e \<longrightarrow> cache_get c now k = Some (entry_value e)) \<and>
         (expires_at e \<le> now \<longrightarrow> cache_get c now k = None) \<and>
         cache_put c t k v ttl k = Some \<lparr>entry_value = v, expires_at = t + ttl\<rparr> \<and>
         (now < t + ttl \<longrightarrow> cache_get (cache_put c t k v ttl) now k = Some v) \<and>
         (t + ttl \<le> now \<longrightarrow> cache_get (cache_put c t k v ttl) now k = None)"
  using assms by (simp add: cache_get_def cache_put_def)

theorem cache_get_put_expiry_witness:
  "(let hit = [\<lparr>ref_document_id = ''d1'', ref_chunk_id = ''c1'', score = 7\<rparr>];
        c = [''en:refund policy'' \<mapsto> \<lparr>entry_value = hit, expires_at = 3600\<rparr>]
    in cache_get c 3599 ''en:refund policy'' = Some hit \<and>
       cache_get c 3600 ''en:refund policy'' = None \<and>
       cache_get (cache_put c 4000 ''en:refund policy'' [] 3600) 7599 ''en:refund policy'' = Some [] \<and>
       cache_get (cache_put c 4000 ''en:refund policy'' [] 3600) 7600 ''en:refund policy'' = None)"
  using cache_get_put_expiry
    [of "[''en:refund policy'' \<mapsto> \<lparr>entry_value = [\<lparr>ref_document_id = ''d1'', ref_chunk_id = ''c1'', score = 7\<rparr>], expires_at = 3600\<rparr>]"
        "''en:refund policy''"
        "\<lparr>entry_value = [\<lparr>ref_document_id = ''d1'', ref_chunk_id = ''c1'', score = 7\<rparr>], expires_at = 3600\<rparr>"
        3599 4000 "[]" 3600]
    cache_get_put_expiry
    [of "[''en:refund policy'' \<mapsto> \<lparr>entry_value = [\<lparr>ref_document_id = ''d1'', ref_chunk_id = ''c1'', score = 7\<rparr>], expires_at = 3600\<rparr>]"
        "''en:refund policy''"
        "\<lparr>entry_value = [\<lparr>ref_document_id = ''d1'', ref_chunk_id = ''c1'', score = 7\<rparr>], expires_at = 3600\<rparr>"
        3600 4000 "[]" 3600]
  by (simp add: Let_def cache_get_def cache_put_def)

subsection \<open>The agent orchestrator\<close>

declare agent_loop.simps [simp del]

lemma agent_loop_reply:
  "agent_loop cfg model search msg budget n ctx p =
     (case fst (ask model n ctx) of
        PlainText answer \<Rightarrow>
          if iterations p = 0 then finish msg p DIRECT_ANSWER Answered answer None
          else if retrieved p \<noteq> [] then finish msg p ANSWERING Answered answer None
          else finish msg p ESCALATED Escalated (handoff_notice cfg) None
      | Invoke (TransferToSupport reason) \<Rightarrow>
          finish msg (log_tool TransferToSupportTool reason [] p) ESCALATED Escalated
            (handoff_notice cfg) None
      | CallFailed \<Rightarrow> finish msg p ESCALATED Escalated (apology cfg) (Some LLMCallError)
      | Invoke (RetrieveDocument q) \<Rightarrow>
          (case budget of
             0 \<Rightarrow> finish msg p ESCALATED Escalated (handoff_notice cfg) (Some ToolBudgetExceeded)
           | Suc b \<Rightarrow>
               agent_loop cfg model search msg b (snd (ask model n ctx))
                 (ctx @ [ToolResult (retrieve cfg search q)])
                 ((log_tool RetrieveDocumentTool q (retrieve cfg search q) p)
                    \<lparr>visited := visited p @ [RETRIEVING],
                     retrieved := retrieved p @ retrieve cfg search q,
                     iterations := Suc (iterations p)\<rparr>)))"
  by (subst agent_loop.simps)
    (simp add: Let_def split: prod.splits llm_reply.splits tool_invocation.splits nat.splits)

lemma agent_loop_stops:
  "fst (ask model n ctx) = PlainText answer \<Longrightarrow>
   agent_loop cfg model search msg budget n ctx p =
     (if iterations p = 0 then finish msg p DIRECT_ANSWER Answered answer None
      else if retrieved p \<noteq> [] then finish msg p ANSWERING Answered answer None
      else finish msg p ESCALATED Escalated (handoff_notice cfg) None)"
  "fst (ask model n ctx) = Invoke (TransferToSupport reason) \<Longrightarrow>
   agent_loop cfg model search msg budget n ctx p =
     finish msg (log_tool TransferToSupportTool reason [] p) ESCALATED Escalated
       (handoff_notice cfg) None"
  "fst (ask model n ctx) = CallFailed \<Longrightarrow>
   agent_loop cfg model search msg budget n ctx p =
     finish msg p ESCALATED Escalated (apology cfg) (Some LLMCallError)"
  "fst (ask model n ctx) = Invoke (RetrieveDocument q) \<Longrightarrow>
   agent_loop cfg model search msg 0 n ctx p =
     finish msg p ESCALATED Escalated (handoff_notice cfg) (Some ToolBudgetExceeded)"
  by (subst agent_loop_reply, simp)+

lemma agent_loop_retrieves:
  "fst (ask model n ctx) = Invoke (RetrieveDocument q) \<Longrightarrow>
   agent_loop cfg model search msg (Suc b) n ctx p =
     agent_loop cfg model search msg b (snd (ask model n ctx))
       (ctx @ [ToolResult (retrieve cfg search q)])
       ((log_tool RetrieveDocumentTool q (retrieve cfg search q) p)
          \<lparr>visited := visited p @ [RETRIEVING],
           retrieved := retrieved p @ retrieve cfg search q,
           iterations := Suc (iterations p)\<rparr>)"
  by (subst agent_loop_reply) simp

lemma agent_loop_shape:
  "\<exists>k st. loop_shape budget p (agent_loop cfg model search msg budget n ctx p) k st"
proof (induction budget arbitrary: n ctx p)
  case 0
  show ?case
  proof (cases "fst (ask model n ctx)")
    case (PlainText answer)
    show ?thesis
      unfolding agent_loop_stops(1)[OF PlainText]
      by (auto simp: loop_shape_def finish_def)
  next
    case CallFailed
    show ?thesis
      unfolding agent_loop_stops(3)[OF CallFailed]
      by (auto simp: loop_shape_def finish_def)
  next
    case (Invoke inv)
    show ?thesis
    proof (cases inv)
      case (TransferToSupport reason)
      show ?thesis
        unfolding agent_loop_stops(2)[OF Invoke[unfolded TransferToSupport]]
        by (auto simp: loop_shape_def finish_def log_tool_def)
    next
      case (RetrieveDocument q)
      show ?thesis
        unfolding agent_loop_stops(4)[OF Invoke[unfolded RetrieveDocument]]
        by (auto simp: loop_shape_def finish_def)
    qed
  qed
next
  case (Suc b)
  show ?case
  proof (cases "fst (ask model n ctx)")
    case (PlainText answer)
    show ?thesis
      unfolding agent_loop_stops(1)[OF PlainText]
      by (auto simp: loop_shape_def finish_def)
  next
    case CallFailed
    show ?thesis
      unfolding agent_loop_stops(3)[OF CallFailed]
      by (auto simp: loop_shape_def finish_def)
  next
    case (Invoke inv)
    show ?thesis
    proof (cases inv)
      case (TransferToSupport reason)
      show ?thesis
        unfolding agent_loop_stops(2)[OF Invoke[unfolded TransferToSupport]]
        by (auto simp: loop_shape_def finish_def log_tool_def)
    next
      case (RetrieveDocument q)
      let ?p' = "(log_tool RetrieveDocumentTool q (retrieve cfg search q) p)
                    \<lparr>visited := visited p @ [RETRIEVING],
                     retrieved := retrieved p @ retrieve cfg search q,
                     iterations := Suc (iterations p)\<rparr>"
      let ?T = "agent_loop cfg model search msg b (snd (ask model n ctx))
                  (ctx @ [ToolResult (retrieve cfg search q)]) ?p'"
      from Suc.IH obtain k st where IH: "loop_shape b ?p' ?T k st" by blast
      then have "loop_shape (Suc b) p ?T (Suc k) st"
        unfolding loop_shape_def by (auto simp: log_tool_def)
      then show ?thesis
        unfolding agent_loop_retrieves[OF Invoke[unfolded RetrieveDocument]] by blast
    qed
  qed
qed

lemma agent_loop_log:
  "\<exists>more. tool_log (agent_loop cfg model search msg budget n ctx p) = tool_log p @ more \<and>
     length (filter (\<lambda>r. rec_kind r = CallRecord \<and> tool_name r = RetrieveDocumentTool) more) =
       iterations (agent_loop cfg model search msg budget n ctx p) - iterations p"
proof (induction budget arbitrary: n ctx p)
  case 0
  show ?case
  proof (cases "fst (ask model n ctx)")
    case (PlainText answer)
    show ?thesis unfolding agent_loop_stops(1)[OF PlainText] by (simp add: finish_def)
  next
    case CallFailed
    show ?thesis unfolding agent_loop_stops(3)[OF CallFailed] by (simp add: finish_def)
  next
    case (Invoke inv)
    show ?thesis
    proof (cases inv)
      case (TransferToSupport reason)
      show ?thesis
        unfolding agent_loop_stops(2)[OF Invoke[unfolded TransferToSupport]]
        by (simp add: finish_def log_tool_def)
    next
      case (RetrieveDocument q)
      show ?thesis
        unfolding agent_loop_stops(4)[OF Invoke[unfolded RetrieveDocument]]
        by (simp add: finish_def)
    qed
  qed
next
  case (Suc b)
  show ?case
  proof (cases "fst (ask model n ctx)")
    case (PlainText answer)
    show ?thesis unfolding agent_loop_stops(1)[OF PlainText] by (simp add: finish_def)
  next
    case CallFailed
    show ?thesis unfolding agent_loop_stops(3)[OF CallFailed] by (simp add: finish_def)
  next
    case (Invoke inv)
    show ?thesis
    proof (cases inv)
      case (TransferToSupport reason)
      show ?thesis
        unfolding agent_loop_stops(2)[OF Invoke[unfolded TransferToSupport]]
        by (simp add: finish_def log_tool_def)
    next
      case (RetrieveDocument q)
      let ?p' = "(log_tool RetrieveDocumentTool q (retrieve cfg search q) p)
                    \<lparr>visited := visited p @ [RETRIEVING],
                     retrieved := retrieved p @ retrieve cfg search q,
                     iterations := Suc (iterations p)\<rparr>"
      let ?T = "agent_loop cfg model search msg b (snd (ask model n ctx))
                  (ctx @ [ToolResult (retrieve cfg search q)]) ?p'"
      let ?calls = "filter (\<lambda>r. rec_kind r = CallRecord \<and> tool_name r = RetrieveDocumentTool)"
      from Suc.IH obtain more where IH: "tool_log ?T = tool_log ?p' @ more"
        "length (?calls more) = iterations ?T - iterations ?p'"
        by blast
      from agent_loop_shape[of b ?p' cfg model search msg "snd (ask model n ctx)"
          "ctx @ [ToolResult (retrieve cfg search q)]"]
      have ge: "iterations ?p' \<le> iterations ?T" by (auto simp: loop_shape_def)
      let ?new = "[\<lparr>rec_kind = CallRecord, tool_name = RetrieveDocumentTool, arguments = q, result = []\<rparr>,
                   \<lparr>rec_kind = ReturnRecord, tool_name = RetrieveDocumentTool, arguments = q,
                    result = retrieve cfg search q\<rparr>]"
      have "tool_log ?T = tool_log p @ (?new @ more)"
        using IH(1) by (simp add: log_tool_def)
      moreover have "length (?calls (?new @ more)) = iterations ?T - iterations p"
        using IH(2) ge by (simp add: log_tool_def)
      ultimately show ?thesis
        unfolding agent_loop_retrieves[OF Invoke[unfolded RetrieveDocument]] by blast
    qed
  qed
qed

lemma sorted_map_hd_le:
  "sorted (map f xs) \<Longrightarrow> x \<in> set xs \<Longrightarrow> f (hd xs) \<le> f x"
  by (cases xs) auto

lemma retrieve_below_floor:
  assumes "list_all (\<lambda>c. score c < min_score cfg) (retrieve cfg search q)"
  shows "retrieve cfg search q = []"
proof (rule ccontr)
  let ?ranked = "sort_key (\<lambda>r. - score r) (search q)"
  assume ne: "retrieve cfg search q \<noteq> []"
  then have clear: "\<not> list_all (\<lambda>r. score r < min_score cfg) ?ranked"
    and ret: "retrieve cfg search q = take (top_k cfg) ?ranked"
    by (auto simp: retrieve_def Let_def split: if_splits)
  from clear obtain x where x: "x \<in> set ?ranked" "min_score cfg \<le> score x"
    by (auto simp: list_all_iff not_less)
  from ne ret have "take (top_k cfg) ?ranked \<noteq> []" by simp
  then have "hd ?ranked \<in> set (take (top_k cfg) ?ranked)"
    by (cases ?ranked; cases "top_k cfg") auto
  with assms ret have low: "score (hd ?ranked) < min_score cfg"
    by (simp add: list_all_iff)
  have "sorted (map (\<lambda>r. - score r) ?ranked)" by (rule sorted_sort_key)
  from sorted_map_hd_le[OF this x(1)] have "score x \<le> score (hd ?ranked)" by simp
  with x(2) low show False by simp
qed

lemma agent_loop_retrieved:
  "below_floor cfg (tool_log (agent_loop cfg model search msg budget n ctx p)) \<Longrightarrow>
   retrieved (agent_loop cfg model search msg budget n ctx p) = retrieved p"
proof (induction budget arbitrary: n ctx p)
  case 0
  show ?case
  proof (cases "fst (ask model n ctx)")
    case (PlainText answer)
    show ?thesis unfolding agent_loop_stops(1)[OF PlainText] by (simp add: finish_def)
  next
    case CallFailed
    show ?thesis unfolding agent_loop_stops(3)[OF CallFailed] by (simp add: finish_def)
  next
    case (Invoke inv)
    show ?thesis
    proof (cases inv)
      case (TransferToSupport reason)
      show ?thesis
        unfolding agent_loop_stops(2)[OF Invoke[unfolded TransferToSupport]]
        by (simp add: finish_def log_tool_def)
    next
      case (RetrieveDocument q)
      show ?thesis
        unfolding agent_loop_stops(4)[OF Invoke[unfolded RetrieveDocument]]
        by (simp add: finish_def)
    qed
  qed
next
  case (Suc b)
  show ?case
  proof (cases "fst (ask model n ctx)")
    case (PlainText answer)
    show ?thesis unfolding agent_loop_stops(1)[OF PlainText] by (simp add: finish_def)
  next
    case CallFailed
    show ?thesis unfolding agent_loop_stops(3)[OF CallFailed] by (simp add: finish_def)
  next
    case (Invoke inv)
    show ?thesis
    proof (cases inv)
      case (TransferToSupport reason)
      show ?thesis
        unfolding agent_loop_stops(2)[OF Invoke[unfolded TransferToSupport]]
        by (simp add: finish_def log_tool_def)
    next
      case (RetrieveDocument q)
      let ?p' = "(log_tool RetrieveDocumentTool q (retrieve cfg search q) p)
                    \<lparr>visited := visited p @ [RETRIEVING],
                     retrieved := retrieved p @ retrieve cfg search q,
                     iterations := Suc (iterations p)\<rparr>"
      let ?T = "agent_loop cfg model search msg b (snd (ask model n ctx))
                  (ctx @ [ToolResult (retrieve cfg search q)]) ?p'"
      note step = agent_loop_retrieves[OF Invoke[unfolded RetrieveDocument]]
      from Suc.prems have below: "below_floor cfg (tool_log ?T)"
        unfolding step .
      from agent_loop_log[of cfg model search msg b "snd (ask model n ctx)"
          "ctx @ [ToolResult (retrieve cfg search q)]" ?p']
      obtain more where "tool_log ?T = tool_log ?p' @ more" by blast
      with below have "list_all (\<lambda>c. score c < min_score cfg) (retrieve cfg search q)"
        by (simp add: below_floor_def log_tool_def)
      then have "retrieve cfg search q = []" by (rule retrieve_below_floor)
      moreover from Suc.IH[OF below] have "retrieved ?T = retrieved ?p'" .
      ultimately show ?thesis unfolding step by (simp add: log_tool_def)
    qed
  qed
qed



lemma demo_weak_turn:
  "run_turn demo_config answers_after_one weak_search [] ''What is the refund policy?'' =
     \<lparr>visited = [START, RETRIEVING, ESCALATED, DONE], retrieved = [],
      tool_log = [\<lparr>rec_kind = CallRecord, tool_name = RetrieveDocumentTool,
                    arguments = ''refund policy'', result = []\<rparr>,
                  \<lparr>rec_kind = ReturnRecord, tool_name = RetrieveDocumentTool,
                    arguments = ''refund policy'', result = []\<rparr>],
      iterations = 1, turn_message = ''What is the refund policy?'', decision = Escalated,
      assistant_message = ''Transferring you to support.'', fault = None\<rparr>"
  by (simp add: run_turn_def agent_loop.simps ask_def answers_after_one_def demo_config_def
      weak_search_def retrieve_def finish_def log_tool_def Let_def eval_nat_numeral)

text \<open>
  The same turn over the corpus whose second candidate clears the floor: the ranking puts
  that candidate first, the retrieval returns both, one of them below the floor, and the
  turn answers. So does the greeting, with no tool call at all.
\<close>

lemma demo_grounded_turn:
  "(let T = run_turn demo_config answers_after_one mixed_search [] ''What is the refund policy?''
    in visited T = [START, RETRIEVING, ANSWERING, DONE] \<and> decision T = Answered \<and>
       retrieved T = [\<lparr>ref_document_id = ''d2'', ref_chunk_id = ''c7'', score = 60\<rparr>,
                      \<lparr>ref_document_id = ''d1'', ref_chunk_id = ''c1'', score = 40\<rparr>] \<and>
       \<not> below_floor demo_config (tool_log T))"
  by (simp add: run_turn_def agent_loop.simps ask_def answers_after_one_def demo_config_def
      mixed_search_def retrieve_def finish_def log_tool_def below_floor_def Let_def
      eval_nat_numeral)

lemma demo_greeting_turn:
  "(let T = run_turn demo_config greets weak_search [] ''hi''
    in visited T = [START, DIRECT_ANSWER, DONE] \<and> decision T = Answered \<and> tool_log T = [] \<and>
       assistant_message T = ''Hello!'')"
  by (simp add: run_turn_def agent_loop.simps ask_def greets_def demo_config_def finish_def
      Let_def)



lemma below_floor_never_answers:
  assumes "below_floor cfg (tool_log (run_turn cfg model search history msg))"
  shows "ANSWERING \<notin> set (visited (run_turn cfg model search history msg)) \<and>
         retrieved (run_turn cfg model search history msg) = []"
proof -
  let ?p = "\<lparr>visited = [START], retrieved = [], tool_log = [], iterations = 0\<rparr>"
  let ?T = "run_turn cfg model search history msg"
  have T: "?T = agent_loop cfg model search msg (max_iterations cfg) 0 (history @ [UserMessage msg]) ?p"
    by (simp add: run_turn_def)
  from agent_loop_shape[of "max_iterations cfg" ?p cfg model search msg 0 "history @ [UserMessage msg]"]
  obtain k st where sh: "loop_shape (max_iterations cfg) ?p ?T k st"
    unfolding T by blast
  from assms have none: "retrieved ?T = []"
    unfolding T using agent_loop_retrieved[of cfg model search msg "max_iterations cfg" 0
        "history @ [UserMessage msg]" ?p]
    by simp
  with sh have st: "st \<noteq> ANSWERING" by (auto simp: loop_shape_def)
  from sh have vis: "visited ?T = START # replicate (iterations ?T) RETRIEVING @ [st, DONE]"
    by (auto simp: loop_shape_def)
  from st have "ANSWERING \<notin> set (visited ?T)" unfolding vis by auto
  with none show ?thesis by simp
qed

text \<open>
  Claim C3. For any agent turn that made a retrieval and in which every retrieval result
  scores below the minimum-score floor, the state machine never enters \<open>ANSWERING\<close>:
  nothing is retrieved, and the turn goes from \<open>START\<close> through its retrievals to
  \<open>ESCALATED\<close> and \<open>DONE\<close>, its decision the escalation. (A turn that made no retrieval
  has no retrieval result; it never enters \<open>ANSWERING\<close> either, and ends as a direct answer
  or as an escalation.)
\<close>

theorem escalation_guarantee:
  assumes "retrieval_made (tool_log (run_turn cfg model search history msg))"
    and "below_floor cfg (tool_log (run_turn cfg model search history msg))"
  shows "(let T = run_turn cfg model search history msg
          in ANSWERING \<notin> set (visited T) \<and> retrieved T = [] \<and> decision T = Escalated \<and>
             visited T = START # replicate (iterations T) RETRIEVING @ [ESCALATED, DONE])"
proof -
  let ?p = "\<lparr>visited = [START], retrieved = [], tool_log = [], iterations = 0\<rparr>"
  let ?T = "run_turn cfg model search history msg"
  have T: "?T = agent_loop cfg model search msg (max_iterations cfg) 0 (history @ [UserMessage msg]) ?p"
    by (simp add: run_turn_def)
  from agent_loop_shape[of "max_iterations cfg" ?p cfg model search msg 0 "history @ [UserMessage msg]"]
  obtain k st where sh: "loop_shape (max_iterations cfg) ?p ?T k st"
    unfolding T by blast
  from agent_loop_log[of cfg model search msg "max_iterations cfg" 0 "history @ [UserMessage msg]" ?p]
  have calls: "length (filter (\<lambda>r. rec_kind r = CallRecord \<and> tool_name r = RetrieveDocumentTool)
                  (tool_log ?T)) = iterations ?T"
    unfolding T by auto
  from assms(1) have "filter (\<lambda>r. rec_kind r = CallRecord \<and> tool_name r = RetrieveDocumentTool)
                        (tool_log ?T) \<noteq> []"
    by (auto simp: retrieval_made_def list_ex_iff filter_empty_conv)
  with calls have some: "0 < iterations ?T" by (metis length_greater_0_conv)
  from below_floor_never_answers[OF assms(2)]
  have never: "ANSWERING \<notin> set (visited ?T)" and none: "retrieved ?T = []"
    by simp_all
  from sh have vis: "visited ?T = START # replicate (iterations ?T) RETRIEVING @ [st, DONE]"
    by (auto simp: loop_shape_def)
  from never have st: "st \<noteq> ANSWERING" unfolding vis by auto
  from sh st some have esc: "st = ESCALATED \<and> decision ?T = Escalated"
    by (auto simp: loop_shape_def)
  with never none vis show ?thesis unfolding Let_def by auto
qed

text \<open>
  A turn in which the LLM retrieves once, gets nothing above the floor and answers all the
  same: the turn is escalated.
\<close>

theorem escalation_guarantee_witness:
  "(let T = run_turn demo_config answers_after_one weak_search [] ''What is the refund policy?''
    in retrieval_made (tool_log T) \<and> below_floor demo_config (tool_log T) \<and> iterations T = 1 \<and>
       ANSWERING \<notin> set (visited T) \<and> retrieved T = [] \<and> decision T = Escalated \<and>
       visited T = [START, RETRIEVING, ESCALATED, DONE])"
proof -
  let ?T = "run_turn demo_config answers_after_one weak_search [] ''What is the refund policy?''"
  have made: "retrieval_made (tool_log ?T)"
    unfolding demo_weak_turn by (simp add: retrieval_made_def)
  have below: "below_floor demo_config (tool_log ?T)"
    unfolding demo_weak_turn by (simp add: below_floor_def)
  have it: "iterations ?T = 1" unfolding demo_weak_turn by simp
  from escalation_guarantee[OF made below] it made below show ?thesis
    by (simp add: Let_def)
qed

end
